theory Spec2Isabelle
  imports Complex_Main "HOL-Library.Word"
begin

section \<open>Scalars\<close>

text \<open>
  \<^verbatim>\<open>Set::Scalar\<close> and \<^verbatim>\<open>amrex::Real\<close> are C++ doubles: the finite values of the
  binary64 format, the two infinities and NaN. The sign of zero and the payload of a NaN
  are not represented.
\<close>

datatype scalar = Fin real | PInf | NInf | NaN

subsection \<open>Rounding to binary64\<close>

text \<open>
  Every arithmetic operation on finite operands gives the exact result rounded to the
  nearest double, ties to the even significand. \<open>rne\<close> rounds a real to the nearest
  integer, ties to even. \<open>expo\<close> is the binary exponent of a positive real, not below
  that of the smallest normal number, and \<open>ulp\<close> the spacing of the doubles there, for a
  significand of 53 bits. \<open>r64\<close> rounds with an exponent that is not bounded above, and
  \<open>round64\<close> gives an infinity when the rounded magnitude reaches \<open>2^1024\<close>.
\<close>

definition rne :: "real \<Rightarrow> int" where
  "rne q = (let n = \<lfloor>q\<rfloor>; f = q - of_int n
            in if f < 1/2 then n else if 1/2 < f then n + 1
               else if even n then n else n + 1)"

definition expo :: "real \<Rightarrow> int" where
  "expo a = max \<lfloor>log 2 a\<rfloor> (- 1022)"

definition ulp :: "real \<Rightarrow> real" where
  "ulp a = 2 powi (expo a - 52)"

definition r64 :: "real \<Rightarrow> real" where
  "r64 x = (if x = 0 then 0 else sgn x * (of_int (rne (\<bar>x\<bar> / ulp \<bar>x\<bar>)) * ulp \<bar>x\<bar>))"

text \<open>The rounding of a positive real.\<close>

definition rpos :: "real \<Rightarrow> real" where
  "rpos a = of_int (rne (a / ulp a)) * ulp a"

definition huge :: real where
  "huge = 2 powi 1024"

definition round64 :: "real \<Rightarrow> scalar" where
  "round64 x = (if huge \<le> r64 x then PInf else if r64 x \<le> - huge then NInf else Fin (r64 x))"

text \<open>The values of \<open>scalar\<close> that are doubles: a finite one is its own rounding.\<close>

definition is_double :: "scalar \<Rightarrow> bool" where
  "is_double v = (case v of Fin x \<Rightarrow> round64 x = Fin x | _ \<Rightarrow> True)"

subsection \<open>Arithmetic and comparison\<close>

definition scalar_neg :: "scalar \<Rightarrow> scalar" where
  "scalar_neg x = (case x of Fin a \<Rightarrow> Fin (- a) | PInf \<Rightarrow> NInf | NInf \<Rightarrow> PInf | NaN \<Rightarrow> NaN)"

definition scalar_add :: "scalar \<Rightarrow> scalar \<Rightarrow> scalar" where
  "scalar_add x y =
     (case x of
        NaN \<Rightarrow> NaN
      | Fin a \<Rightarrow> (case y of Fin b \<Rightarrow> round64 (a + b) | PInf \<Rightarrow> PInf | NInf \<Rightarrow> NInf
                   | NaN \<Rightarrow> NaN)
      | PInf \<Rightarrow> (case y of Fin b \<Rightarrow> PInf | PInf \<Rightarrow> PInf | NInf \<Rightarrow> NaN | NaN \<Rightarrow> NaN)
      | NInf \<Rightarrow> (case y of Fin b \<Rightarrow> NInf | PInf \<Rightarrow> NaN | NInf \<Rightarrow> NInf | NaN \<Rightarrow> NaN))"

definition scalar_sub :: "scalar \<Rightarrow> scalar \<Rightarrow> scalar" where
  "scalar_sub x y = scalar_add x (scalar_neg y)"

definition scalar_mul :: "scalar \<Rightarrow> scalar \<Rightarrow> scalar" where
  "scalar_mul x y =
     (case x of
        NaN \<Rightarrow> NaN
      | Fin a \<Rightarrow> (case y of
            Fin b \<Rightarrow> round64 (a * b)
          | PInf \<Rightarrow> (if a = 0 then NaN else if 0 < a then PInf else NInf)
          | NInf \<Rightarrow> (if a = 0 then NaN else if 0 < a then NInf else PInf)
          | NaN \<Rightarrow> NaN)
      | PInf \<Rightarrow> (case y of
            Fin b \<Rightarrow> (if b = 0 then NaN else if 0 < b then PInf else NInf)
          | PInf \<Rightarrow> PInf | NInf \<Rightarrow> NInf | NaN \<Rightarrow> NaN)
      | NInf \<Rightarrow> (case y of
            Fin b \<Rightarrow> (if b = 0 then NaN else if 0 < b then NInf else PInf)
          | PInf \<Rightarrow> NInf | NInf \<Rightarrow> PInf | NaN \<Rightarrow> NaN))"

text \<open>Division by a zero denominator gives an infinity, or NaN for \<open>0/0\<close>; the zero
  is taken as positive.\<close>

definition scalar_div :: "scalar \<Rightarrow> scalar \<Rightarrow> scalar" where
  "scalar_div x y =
     (case x of
        NaN \<Rightarrow> NaN
      | Fin a \<Rightarrow> (case y of
            Fin b \<Rightarrow> (if b \<noteq> 0 then round64 (a / b)
                       else if a = 0 then NaN else if 0 < a then PInf else NInf)
          | PInf \<Rightarrow> Fin 0 | NInf \<Rightarrow> Fin 0 | NaN \<Rightarrow> NaN)
      | PInf \<Rightarrow> (case y of
            Fin b \<Rightarrow> (if 0 \<le> b then PInf else NInf)
          | PInf \<Rightarrow> NaN | NInf \<Rightarrow> NaN | NaN \<Rightarrow> NaN)
      | NInf \<Rightarrow> (case y of
            Fin b \<Rightarrow> (if 0 \<le> b then NInf else PInf)
          | PInf \<Rightarrow> NaN | NInf \<Rightarrow> NaN | NaN \<Rightarrow> NaN))"

text \<open>Every comparison with NaN is false.\<close>

definition scalar_lt :: "scalar \<Rightarrow> scalar \<Rightarrow> bool" where
  "scalar_lt x y =
     (case x of
        NaN \<Rightarrow> False
      | Fin a \<Rightarrow> (case y of Fin b \<Rightarrow> a < b | PInf \<Rightarrow> True | NInf \<Rightarrow> False | NaN \<Rightarrow> False)
      | PInf \<Rightarrow> False
      | NInf \<Rightarrow> (case y of Fin b \<Rightarrow> True | PInf \<Rightarrow> True | NInf \<Rightarrow> False | NaN \<Rightarrow> False))"

definition scalar_le :: "scalar \<Rightarrow> scalar \<Rightarrow> bool" where
  "scalar_le x y =
     (case x of
        NaN \<Rightarrow> False
      | Fin a \<Rightarrow> (case y of Fin b \<Rightarrow> a \<le> b | PInf \<Rightarrow> True | NInf \<Rightarrow> False | NaN \<Rightarrow> False)
      | PInf \<Rightarrow> (case y of Fin b \<Rightarrow> False | PInf \<Rightarrow> True | NInf \<Rightarrow> False | NaN \<Rightarrow> False)
      | NInf \<Rightarrow> (case y of Fin b \<Rightarrow> True | PInf \<Rightarrow> True | NInf \<Rightarrow> True | NaN \<Rightarrow> False))"

instantiation scalar :: "{plus, minus, uminus, times, inverse, ord}"
begin

definition uminus_scalar_def: "- x = scalar_neg x"
definition plus_scalar_def: "x + y = scalar_add x y"
definition minus_scalar_def: "x - y = scalar_sub x y"
definition times_scalar_def: "x * y = scalar_mul x y"
definition divide_scalar_def: "divide x y = scalar_div x y"
definition inverse_scalar_def: "inverse x = scalar_div (Fin 1) x"
definition less_scalar_def: "x < y \<longleftrightarrow> scalar_lt x y"
definition less_eq_scalar_def: "x \<le> y \<longleftrightarrow> scalar_le x y"

instance ..

end

definition isnan :: "scalar \<Rightarrow> bool" where
  "isnan x = (case x of NaN \<Rightarrow> True | _ \<Rightarrow> False)"

definition isinf :: "scalar \<Rightarrow> bool" where
  "isinf x = (case x of PInf \<Rightarrow> True | NInf \<Rightarrow> True | _ \<Rightarrow> False)"

text \<open>\<^verbatim>\<open>std::max(a,b)\<close> is \<^verbatim>\<open>(a < b) ? b : a\<close> and \<^verbatim>\<open>std::min(a,b)\<close> is
  \<^verbatim>\<open>(b < a) ? b : a\<close>.\<close>

definition std_max :: "scalar \<Rightarrow> scalar \<Rightarrow> scalar" where
  "std_max a b = (if a < b then b else a)"

definition std_min :: "scalar \<Rightarrow> scalar \<Rightarrow> scalar" where
  "std_min a b = (if b < a then b else a)"

section \<open>The crack model and the stencils\<close>

text \<open>
  \<^verbatim>\<open>boundary\<close> points to a \<^verbatim>\<open>Model::Interface::Crack\<close> object (Constant or Sin);
  the class is declared outside this file, so its member functions are the fields of a
  record. \<^verbatim>\<open>g_phi\<close>, \<^verbatim>\<open>Dg_phi\<close> and \<^verbatim>\<open>Dw_phi\<close> take the damage value and a
  second argument that the integrator always passes as \<^verbatim>\<open>0.\<close>.
\<close>

record crack_model =
  g_phi :: "scalar \<Rightarrow> scalar \<Rightarrow> scalar"
  Dg_phi :: "scalar \<Rightarrow> scalar \<Rightarrow> scalar"
  Dw_phi :: "scalar \<Rightarrow> scalar \<Rightarrow> scalar"
  Epc :: "scalar \<Rightarrow> scalar"
  kappa :: "scalar \<Rightarrow> scalar"
  GetMobility :: "scalar \<Rightarrow> scalar"

type_synonym cell = "int \<times> int \<times> int"

type_synonym field = "cell \<Rightarrow> scalar"

text \<open>
  \<^verbatim>\<open>Numeric::Laplacian\<close>, \<^verbatim>\<open>Numeric::Gradient\<close> and
  \<^verbatim>\<open>Numeric::Interpolate::NodeToCellAverage\<close> come from \<^verbatim>\<open>Numeric/Stencil.H\<close> and
  \<^verbatim>\<open>atan2\<close> from the C library; they are parameters of the kernel. \<^verbatim>\<open>DX\<close> is the
  array of cell sizes, indexed by direction.
\<close>

record numeric =
  Laplacian :: "field \<Rightarrow> cell \<Rightarrow> (nat \<Rightarrow> scalar) \<Rightarrow> scalar"
  Gradient :: "field \<Rightarrow> cell \<Rightarrow> (nat \<Rightarrow> scalar) \<Rightarrow> nat \<Rightarrow> scalar"
  NodeToCellAverage :: "field \<Rightarrow> cell \<Rightarrow> scalar"
  atan2 :: "scalar \<Rightarrow> scalar \<Rightarrow> scalar"

section \<open>BrittleFracture::CrackProblem\<close>

text \<open>The two \<^verbatim>\<open>Util::Message\<close> notices of the clamp, each with the value it
  prints, and the \<^verbatim>\<open>Util::Abort\<close> of the kernel with the two values it prints
  (\<^verbatim>\<open>Dw_phi(c_old,0.)\<close> and \<^verbatim>\<open>c_old\<close>).\<close>

datatype notice = Resetting_to_1 scalar | Resetting_to_0 scalar

datatype abort = Abort_Dwphi scalar scalar

record cell_update =
  df0 :: scalar
  df1 :: scalar
  df2 :: scalar
  df3 :: scalar
  c_new :: scalar
  notices :: "notice list"

text \<open>The accumulation of \<^verbatim>\<open>rhs\<close>: it starts at \<^verbatim>\<open>0.\<close>, two terms are added and
  one is subtracted.\<close>

definition CrackProblem_rhs ::
  "crack_model \<Rightarrow> scalar \<Rightarrow> scalar \<Rightarrow> scalar \<Rightarrow> scalar \<Rightarrow> scalar" where
  "CrackProblem_rhs boundary Theta laplacian en_cell c =
     (let rhs = Fin 0;
          rhs = rhs + Dg_phi boundary c (Fin 0) * en_cell;
          rhs = rhs + Epc boundary Theta * Dw_phi boundary c (Fin 0);
          rhs = rhs - kappa boundary Theta * laplacian
      in rhs)"

text \<open>The explicit update, as first stored in \<^verbatim>\<open>c_new(i,j,k,0)\<close>.\<close>

definition CrackProblem_explicit :: "crack_model \<Rightarrow> scalar \<Rightarrow> scalar \<Rightarrow> scalar \<Rightarrow> scalar" where
  "CrackProblem_explicit boundary dt c rhs =
     c - dt * std_max (Fin 0) rhs * GetMobility boundary c"

text \<open>The two resets that follow it, in the order of the source.\<close>

definition CrackProblem_clamp :: "scalar \<Rightarrow> scalar \<times> notice list" where
  "CrackProblem_clamp v =
     (let (c, ns) = (if v > Fin 1 then (Fin 1, [Resetting_to_1 v]) else (v, []));
          (c, ns) = (if c < Fin 0 then (Fin 0, ns @ [Resetting_to_0 c]) else (c, ns))
      in (c, ns))"

definition CrackProblem_cell ::
  "numeric \<Rightarrow> crack_model \<Rightarrow> scalar \<Rightarrow> (nat \<Rightarrow> scalar) \<Rightarrow> field \<Rightarrow> field \<Rightarrow> cell
     \<Rightarrow> abort + cell_update" where
  "CrackProblem_cell num boundary dt DX c_old energy_box ijk =
     (let laplacian = Laplacian num c_old ijk DX;
          Dcold = Gradient num c_old ijk DX;
          Theta = atan2 num (Dcold 1) (Dcold 0);
          en_cell = NodeToCellAverage num energy_box ijk;
          d0 = Dg_phi boundary (c_old ijk) (Fin 0) * en_cell;
          d1 = Epc boundary Theta * Dw_phi boundary (c_old ijk) (Fin 0);
          d2 = kappa boundary Theta * laplacian;
          rhs = CrackProblem_rhs boundary Theta laplacian en_cell (c_old ijk);
          d3 = std_max (Fin 0) rhs
      in if isnan rhs
         then Inl (Abort_Dwphi (Dw_phi boundary (c_old ijk) (Fin 0)) (c_old ijk))
         else (let (c, ns) = CrackProblem_clamp (CrackProblem_explicit boundary dt (c_old ijk) rhs)
               in Inr \<lparr>df0 = d0, df1 = d1, df2 = d2, df3 = d3, c_new = c, notices = ns\<rparr>))"

text \<open>The combined force and the explicit result of a cell, named for the
  statements below: the values the kernel holds in \<^verbatim>\<open>rhs\<close> and first writes
  to \<^verbatim>\<open>c_new(i,j,k,0)\<close>.\<close>

definition cell_rhs ::
  "numeric \<Rightarrow> crack_model \<Rightarrow> (nat \<Rightarrow> scalar) \<Rightarrow> field \<Rightarrow> field \<Rightarrow> cell \<Rightarrow> scalar" where
  "cell_rhs num boundary DX c_old energy_box ijk =
     CrackProblem_rhs boundary
       (atan2 num (Gradient num c_old ijk DX 1) (Gradient num c_old ijk DX 0))
       (Laplacian num c_old ijk DX) (NodeToCellAverage num energy_box ijk) (c_old ijk)"

definition cell_raw ::
  "numeric \<Rightarrow> crack_model \<Rightarrow> scalar \<Rightarrow> (nat \<Rightarrow> scalar) \<Rightarrow> field \<Rightarrow> field \<Rightarrow> cell
     \<Rightarrow> scalar" where
  "cell_raw num boundary dt DX c_old energy_box ijk =
     CrackProblem_explicit boundary dt (c_old ijk) (cell_rhs num boundary DX c_old energy_box ijk)"

text \<open>
  The fields of one level that \<^verbatim>\<open>CrackProblem\<close> touches. The routine swaps
  \<^verbatim>\<open>m_c_old\<close> and \<^verbatim>\<open>m_c\<close> and then runs the kernel on every cell of the valid
  box; an abort in a cell ends the program.
\<close>

record fields =
  m_c :: field
  m_c_old :: field
  m_driving_force :: "cell \<Rightarrow> nat \<Rightarrow> scalar"
  m_energy_pristine :: field
  messages :: "notice list"

fun CrackProblem_box ::
  "numeric \<Rightarrow> crack_model \<Rightarrow> scalar \<Rightarrow> (nat \<Rightarrow> scalar) \<Rightarrow> cell list \<Rightarrow> fields
     \<Rightarrow> abort + fields" where
  "CrackProblem_box num boundary dt DX [] st = Inr st"
| "CrackProblem_box num boundary dt DX (ijk # bx) st =
     (case CrackProblem_cell num boundary dt DX (m_c_old st) (m_energy_pristine st) ijk of
        Inl a \<Rightarrow> Inl a
      | Inr u \<Rightarrow>
          CrackProblem_box num boundary dt DX bx
            (st\<lparr>m_c := (m_c st)(ijk := c_new u),
                m_driving_force := (m_driving_force st)
                  (ijk := (\<lambda>n. if n = 0 then df0 u else if n = 1 then df1 u
                                else if n = 2 then df2 u else df3 u)),
                messages := messages st @ notices u\<rparr>))"

definition CrackProblem ::
  "numeric \<Rightarrow> crack_model \<Rightarrow> scalar \<Rightarrow> (nat \<Rightarrow> scalar) \<Rightarrow> cell list \<Rightarrow> fields
     \<Rightarrow> abort + fields" where
  "CrackProblem num boundary dt DX bx st =
     CrackProblem_box num boundary dt DX bx (st\<lparr>m_c := m_c_old st, m_c_old := m_c st\<rparr>)"

section \<open>BrittleFracture::ScaledModulus\<close>

text \<open>\<^verbatim>\<open>AMREX_SPACEDIM\<close>: the macros \<^verbatim>\<open>AMREX_D_PICK\<close> and \<^verbatim>\<open>AMREX_D_TERM\<close> select
  or concatenate their arguments by it.\<close>

datatype spacedim = D1 | D2 | D3

text \<open>The value pushed to \<^verbatim>\<open>_temp\<close>: \<^verbatim>\<open>mul\<close> times the sum of \<^verbatim>\<open>g_phi\<close> over the
  cells next to the node, two, four or eight of them.\<close>

definition ScaledModulus_temp :: "spacedim \<Rightarrow> crack_model \<Rightarrow> field \<Rightarrow> cell \<Rightarrow> scalar" where
  "ScaledModulus_temp d boundary cnew ijk =
     (case ijk of (i, j, k) \<Rightarrow>
        let g = (\<lambda>c. g_phi boundary (cnew c) (Fin 0));
            mul = (case d of D1 \<Rightarrow> Fin (1/2) | D2 \<Rightarrow> Fin (1/4) | D3 \<Rightarrow> Fin (1/8));
            t1 = g (i, j, k) + g (i - 1, j, k);
            t2 = t1 + g (i, j - 1, k) + g (i - 1, j - 1, k);
            t3 = t2 + g (i, j, k - 1) + g (i - 1, j, k - 1)
                    + g (i, j - 1, k - 1) + g (i - 1, j - 1, k - 1)
        in mul * (case d of D1 \<Rightarrow> t1 | D2 \<Rightarrow> t2 | D3 \<Rightarrow> t3))"

text \<open>The argument that the kernel passes to \<^verbatim>\<open>DegradeModulus\<close> at a node.\<close>

definition ScaledModulus_node ::
  "spacedim \<Rightarrow> crack_model \<Rightarrow> scalar \<Rightarrow> field \<Rightarrow> cell \<Rightarrow> scalar" where
  "ScaledModulus_node d boundary scaleModulusMax cnew ijk =
     (let temp = ScaledModulus_temp d boundary cnew ijk;
          temp = (if temp < Fin 0 then Fin 0 else temp);
          temp = (if temp > Fin 1 then Fin 1 else temp)
      in std_min (Fin 1 - temp) (Fin 1 - scaleModulusMax))"

section \<open>The loading controller\<close>

text \<open>
  The members of the integrator that the constructor, \<^verbatim>\<open>TimeStepBegin\<close> and
  \<^verbatim>\<open>TimeStepComplete\<close> read and write. \<^verbatim>\<open>bc_top_1\<close> is \<^verbatim>\<open>elastic.bc_top[1]\<close>.
  Calls that leave the class are recorded: \<^verbatim>\<open>stop_time\<close> holds the argument of the
  last \<^verbatim>\<open>SetStopTime\<close>, \<^verbatim>\<open>plot_files\<close> the step of each \<^verbatim>\<open>WritePlotFile\<close>, and
  \<^verbatim>\<open>elastic_solves\<close> the top displacement in force at each call of
  \<^verbatim>\<open>ElasticityProblem\<close>, which is the value that its \<^verbatim>\<open>bc.Set\<close> for the face
  \<^verbatim>\<open>YHI\<close> and direction \<^verbatim>\<open>Y\<close> applies. The step counter \<^verbatim>\<open>elastic.test_step\<close> is a
  C++ \<^verbatim>\<open>int\<close>: a word of 32 bits read as signed, whose increment wraps around.
\<close>

record controller =
  crackStressTest :: bool
  newCrackProblem :: bool
  solveElasticity :: bool
  crack_err_norm :: scalar
  c_new_norm :: scalar
  tol_crack :: scalar
  test_rate :: scalar
  test_init :: scalar
  test_max :: scalar
  test_step :: "32 word"
  bc_top_1 :: scalar
  stop_time :: "scalar option"
  plot_files :: "32 word list"
  elastic_solves :: "scalar list"

subsection \<open>The constructor: the load ramp\<close>

text \<open>The literals \<^verbatim>\<open>0.1\<close> and \<^verbatim>\<open>0.01\<close> are the doubles nearest to 1/10 and 1/100.
  \<^verbatim>\<open>pp.query\<close> stores the value of a key that the input has and leaves the variable
  as it is otherwise. The first argument of the constructor's model is the object with
  the initial values of the header.\<close>

definition query :: "'a option \<Rightarrow> 'a \<Rightarrow> 'a" where
  "query v x = (case v of None \<Rightarrow> x | Some y \<Rightarrow> y)"

definition BrittleFracture_ramp ::
  "controller \<Rightarrow> scalar option \<Rightarrow> scalar option \<Rightarrow> scalar option \<Rightarrow> bool option
     \<Rightarrow> controller \<times> string list" where
  "BrittleFracture_ramp s0 disp_step disp_init max_disp stress_test =
     (let s = s0\<lparr>test_rate := query disp_step (test_rate s0)\<rparr>;
          s = s\<lparr>test_init := query disp_init (test_init s)\<rparr>;
          s = s\<lparr>test_max := query max_disp (test_max s)\<rparr>;
          s = s\<lparr>crackStressTest := query stress_test (crackStressTest s)\<rparr>;
          s = s\<lparr>bc_top_1 := test_init s\<rparr>;
          (s, w) = (if test_rate s < Fin 0
                    then (s\<lparr>test_rate := round64 (1/10)\<rparr>,
                          [''Rate can't be less than zero. Resetting to 1.0''])
                    else (s, []));
          (s, w) = (if test_max s < Fin 0 \<or> test_max s < test_rate s
                    then (s\<lparr>test_max := test_rate s\<rparr>,
                          w @ [''Max can't be less than load step. Resetting to load step''])
                    else (s, w));
          s = s\<lparr>bc_top_1 := Fin 0\<rparr>
      in (s, w))"

subsection \<open>TimeStepBegin and TimeStepComplete\<close>

definition ElasticityProblem_call :: "controller \<Rightarrow> controller" where
  "ElasticityProblem_call s = s\<lparr>elastic_solves := elastic_solves s @ [bc_top_1 s]\<rparr>"

definition TimeStepBegin :: "controller \<Rightarrow> controller" where
  "TimeStepBegin s =
     (if crackStressTest s
      then (let s = s\<lparr>bc_top_1 := test_init s + Fin (of_int (sint (test_step s))) * test_rate s\<rparr>;
                s = ElasticityProblem_call s
            in s\<lparr>solveElasticity := False\<rparr>)
      else (let s = (if newCrackProblem s
                     then s\<lparr>bc_top_1 := test_init s + Fin (of_int (sint (test_step s))) * test_rate s,
                            newCrackProblem := False\<rparr>
                     else s)
            in ElasticityProblem_call s))"

text \<open>\<^verbatim>\<open>IntegrateVariables\<close> belongs to the base class: it runs \<^verbatim>\<open>Integrate\<close> over
  the boxes and leaves the sums in the two registered variables. Its result is an
  argument of the model.\<close>

definition IntegrateVariables :: "scalar \<Rightarrow> scalar \<Rightarrow> controller \<Rightarrow> controller" where
  "IntegrateVariables e n s = s\<lparr>crack_err_norm := e, c_new_norm := n\<rparr>"

definition WritePlotFile :: "controller \<Rightarrow> controller" where
  "WritePlotFile s = s\<lparr>plot_files := plot_files s @ [test_step s]\<rparr>"

definition SetStopTime :: "scalar \<Rightarrow> controller \<Rightarrow> controller" where
  "SetStopTime t s = s\<lparr>stop_time := Some t\<rparr>"

definition TimeStepComplete :: "scalar \<Rightarrow> scalar \<Rightarrow> scalar \<Rightarrow> controller \<Rightarrow> controller" where
  "TimeStepComplete time e n s =
     (if crackStressTest s
      then SetStopTime (time - round64 (1/100)) (WritePlotFile s)
      else (let s = IntegrateVariables e n s
            in if crack_err_norm s / c_new_norm s > tol_crack s then s
               else (let s = s\<lparr>crack_err_norm := Fin 0, c_new_norm := Fin 0\<rparr>;
                         s = WritePlotFile s;
                         s = s\<lparr>newCrackProblem := True\<rparr>;
                         s = s\<lparr>test_step := test_step s + 1\<rparr>;
                         s = (if bc_top_1 s \<ge> test_max s
                              then SetStopTime (time - round64 (1/100)) s else s)
                     in s\<lparr>crack_err_norm := Fin 0, c_new_norm := Fin 0\<rparr>)))"

text \<open>
  Modelled from the spec: the driver that calls the three hooks, \<^verbatim>\<open>Integrator::Evolve\<close>,
  is not in this file. The spec has the controller loop through the elasticity solve, the
  evolution of the crack and the convergence check at every pseudo-time step, and end the
  simulation by the stop that \<^verbatim>\<open>TimeStepComplete\<close> requests. \<^verbatim>\<open>Advance\<close> changes
  fields only. Each element of the list is the time of a step and the two sums its
  reduction gives.
\<close>

fun Evolve :: "controller \<Rightarrow> (scalar \<times> scalar \<times> scalar) list \<Rightarrow> controller" where
  "Evolve s [] = s"
| "Evolve s ((time, e, n) # steps) =
     (if stop_time s \<noteq> None then s
      else Evolve (TimeStepComplete time e n (TimeStepBegin s)) steps)"

section \<open>BrittleFracture::Integrate\<close>

definition cell_volume :: "spacedim \<Rightarrow> (nat \<Rightarrow> scalar) \<Rightarrow> scalar" where
  "cell_volume d DX =
     (case d of D1 \<Rightarrow> DX 0 | D2 \<Rightarrow> DX 0 * DX 1 | D3 \<Rightarrow> DX 0 * DX 1 * DX 2)"

text \<open>The loops over the box, as a recursion over its cells in the order of the loops;
  the sums go to the two members of the class.\<close>

fun Integrate ::
  "spacedim \<Rightarrow> (nat \<Rightarrow> scalar) \<Rightarrow> field \<Rightarrow> field \<Rightarrow> cell list \<Rightarrow> controller \<Rightarrow> controller" where
  "Integrate d DX cnew cold [] s = s"
| "Integrate d DX cnew cold (m # box) s =
     Integrate d DX cnew cold box
       (s\<lparr>crack_err_norm :=
             crack_err_norm s + ((cnew m - cold m) * (cnew m - cold m)) * cell_volume d DX,
           c_new_norm := c_new_norm s + cnew m * cnew m * cell_volume d DX\<rparr>)"

section \<open>BrittleFracture::ElasticityProblem: the linear solver\<close>

text \<open>The two values of \<^verbatim>\<open>MLMG::BottomSolver\<close> that the file names. A solver on which
  \<^verbatim>\<open>setBottomSolver\<close> was not called has \<open>None\<close> and keeps the default of its
  class.\<close>

datatype bottom_solver = cg | bicgstab

record elastic_options =
  max_iter :: int
  max_fmg_iter :: int
  max_fixed_iter :: int
  verbose :: int
  cgverbose :: int
  bottom_max_iter :: int
  cg_tol_rel :: scalar
  cg_tol_abs :: scalar
  bottom_solver :: string

record linear_solver =
  MaxIter :: "int option"
  MaxFmgIter :: "int option"
  FixedIter :: "int option"
  Verbose :: "int option"
  CGVerbose :: "int option"
  BottomMaxIter :: "int option"
  BottomTolerance :: "scalar option"
  BottomToleranceAbs :: "scalar option"
  BottomSolver :: "bottom_solver option"

definition new_solver :: linear_solver where
  "new_solver =
     \<lparr>MaxIter = None, MaxFmgIter = None, FixedIter = None, Verbose = None, CGVerbose = None,
      BottomMaxIter = None, BottomTolerance = None, BottomToleranceAbs = None,
      BottomSolver = None\<rparr>"

datatype solver_event = Warning | Abort

definition setBottomSolver_by_name :: "string \<Rightarrow> linear_solver \<Rightarrow> linear_solver" where
  "setBottomSolver_by_name name solver =
     (if name = ''cg'' then solver\<lparr>BottomSolver := Some cg\<rparr>
      else if name = ''bicgstab'' then solver\<lparr>BottomSolver := Some bicgstab\<rparr>
      else solver)"

text \<open>The solver as \<^verbatim>\<open>ElasticityProblem\<close> has it when it calls \<^verbatim>\<open>solve\<close>, and the
  events up to there: one warning without text for each level whose displacement
  contains a NaN (the list of booleans, one for each level).\<close>

definition ElasticityProblem_solver ::
  "elastic_options \<Rightarrow> bool list \<Rightarrow> linear_solver \<times> solver_event list" where
  "ElasticityProblem_solver elastic disp_contains_nan =
     (let solver = new_solver;
          solver = solver\<lparr>MaxIter := Some (max_iter elastic)\<rparr>;
          solver = solver\<lparr>MaxFmgIter := Some (max_fmg_iter elastic)\<rparr>;
          solver = solver\<lparr>FixedIter := Some (max_fixed_iter elastic)\<rparr>;
          solver = solver\<lparr>Verbose := Some (verbose elastic)\<rparr>;
          solver = solver\<lparr>CGVerbose := Some (cgverbose elastic)\<rparr>;
          solver = solver\<lparr>BottomMaxIter := Some (bottom_max_iter elastic)\<rparr>;
          solver = solver\<lparr>BottomTolerance := Some (cg_tol_rel elastic)\<rparr>;
          solver = solver\<lparr>BottomToleranceAbs := Some (cg_tol_abs elastic)\<rparr>;
          events = map (\<lambda>b. Warning) (filter (\<lambda>b. b) disp_contains_nan);
          solver = setBottomSolver_by_name (bottom_solver elastic) solver
      in (solver, events))"

section \<open>Sample data\<close>

text \<open>A flat damage field on a uniform energy: the stencils of a flat field, a
  quadratic degradation function with a double well that vanishes at 0 and 1, constant
  surface coefficients and a constant mobility.\<close>

definition flat_numeric :: numeric where
  "flat_numeric =
     \<lparr>Laplacian = (\<lambda>f ijk DX. Fin 0), Gradient = (\<lambda>f ijk DX n. Fin 0),
      NodeToCellAverage = (\<lambda>f ijk. f ijk), atan2 = (\<lambda>y x. Fin 0)\<rparr>"

definition sample_model :: "scalar \<Rightarrow> crack_model" where
  "sample_model mob =
     \<lparr>g_phi = (\<lambda>c z. c * c), Dg_phi = (\<lambda>c z. Fin 2 * c),
      Dw_phi = (\<lambda>c z. c * (Fin 1 - c)), Epc = (\<lambda>t. Fin 1), kappa = (\<lambda>t. Fin 1),
      GetMobility = (\<lambda>c. mob)\<rparr>"

definition uniform_fields :: "scalar \<Rightarrow> scalar \<Rightarrow> fields" where
  "uniform_fields c e =
     \<lparr>m_c = (\<lambda>ijk. c), m_c_old = (\<lambda>ijk. c), m_driving_force = (\<lambda>ijk n. Fin 0),
      m_energy_pristine = (\<lambda>ijk. e), messages = []\<rparr>"

definition uniform :: "scalar \<Rightarrow> field" where
  "uniform v = (\<lambda>ijk. v)"

definition unit_DX :: "nat \<Rightarrow> scalar" where
  "unit_DX = (\<lambda>n. Fin 1)"


text \<open>A controller at the start of a run, with a ramp of 0, 0.375, 0.75, ... up to a
  maximum of 1, and the options of a solver with a given name of bottom solver.\<close>

definition sample_controller :: controller where
  "sample_controller =
     \<lparr>crackStressTest = False, newCrackProblem = True, solveElasticity = False,
      crack_err_norm = Fin 0, c_new_norm = Fin 0, tol_crack = Fin (1/1048576),
      test_rate = Fin (3/8), test_init = Fin 0, test_max = Fin 1, test_step = 0,
      bc_top_1 = Fin 0, stop_time = None, plot_files = [], elastic_solves = []\<rparr>"

text \<open>The double nearest to 1/10, the two doubles next to 6/10, and a controller in the
  sixth load step of a ramp from 0 by steps of \<^verbatim>\<open>0.1\<close>: the ramp in force is
  \<^verbatim>\<open>0 + 5 * 0.1\<close>, which is \<^verbatim>\<open>0.5\<close>.\<close>

definition d_tenth :: real where
  "d_tenth = 3602879701896397 / 36028797018963968"

definition d_six_tenths_up :: real where
  "d_six_tenths_up = 5404319552844596 / 9007199254740992"

definition d_six_tenths_down :: real where
  "d_six_tenths_down = 5404319552844595 / 9007199254740992"

definition tenth_controller :: controller where
  "tenth_controller =
     sample_controller\<lparr>newCrackProblem := False, test_rate := round64 (1/10), test_step := 5,
       bc_top_1 := Fin (1/2)\<rparr>"

definition sample_options :: "string \<Rightarrow> elastic_options" where
  "sample_options name =
     \<lparr>max_iter = 200, max_fmg_iter = 0, max_fixed_iter = 5, verbose = 3, cgverbose = 3,
      bottom_max_iter = 200, cg_tol_rel = Fin (1/16384), cg_tol_abs = Fin 0,
      bottom_solver = name\<rparr>"

section \<open>The invariant of the ramp\<close>

text \<open>The ramp of step \<open>k\<close>, as \<^verbatim>\<open>TimeStepBegin\<close> computes it, and what holds of the
  controller between two steps of a run in crack mode with a finite \<^verbatim>\<open>test_init\<close> and
  \<^verbatim>\<open>test_rate\<close>, when the step counter can still be incremented \<open>n\<close> times.\<close>

definition ramp :: "real \<Rightarrow> real \<Rightarrow> int \<Rightarrow> scalar" where
  "ramp a b k = Fin a + Fin (of_int k) * Fin b"

definition ramp_inv :: "real \<Rightarrow> real \<Rightarrow> nat \<Rightarrow> controller \<Rightarrow> bool" where
  "ramp_inv a b n s \<longleftrightarrow>
     test_init s = Fin a \<and> test_rate s = Fin b \<and> \<not> crackStressTest s \<and>
     sint (test_step s) + int n < 2147483648 \<and>
     sorted_wrt (\<le>) (elastic_solves s) \<and>
     (\<forall>r \<in> set (elastic_solves s). r \<le> ramp a b (sint (test_step s))) \<and>
     (\<forall>r \<in> set (elastic_solves s). test_max s \<le> r \<longrightarrow> r = last (elastic_solves s)) \<and>
     (if newCrackProblem s
      then (elastic_solves s = [] \<and> stop_time s = None) \<or>
           (elastic_solves s \<noteq> [] \<and> bc_top_1 s = last (elastic_solves s) \<and>
            (stop_time s = None \<longrightarrow> \<not> test_max s \<le> last (elastic_solves s)) \<and>
            (stop_time s \<noteq> None \<longrightarrow> test_max s \<le> last (elastic_solves s)))
      else stop_time s = None \<and> elastic_solves s \<noteq> [] \<and>
           bc_top_1 s = last (elastic_solves s) \<and>
           last (elastic_solves s) = ramp a b (sint (test_step s)))"

section \<open>Properties of the rounding\<close>

lemma rne_of_int [simp]: "rne (of_int n) = n"
  by (simp add: rne_def)

lemma rne_bounds: "\<lfloor>q\<rfloor> \<le> rne q \<and> rne q \<le> \<lfloor>q\<rfloor> + 1"
  by (simp add: rne_def Let_def)

lemma rne_mono: assumes "q \<le> q'" shows "rne q \<le> rne q'"
proof (cases "\<lfloor>q\<rfloor> < \<lfloor>q'\<rfloor>")
  case True
  then show ?thesis using rne_bounds [of q] rne_bounds [of q'] by linarith
next
  case False
  with assms have eq: "\<lfloor>q\<rfloor> = \<lfloor>q'\<rfloor>" using floor_mono [OF assms] by linarith
  then have "q - of_int \<lfloor>q\<rfloor> \<le> q' - of_int \<lfloor>q'\<rfloor>" using assms by simp
  then show ?thesis unfolding rne_def Let_def eq by auto
qed

lemma rne_ge: "of_int n \<le> q \<Longrightarrow> n \<le> rne q"
  using rne_mono [of "of_int n" q] by simp

lemma rne_le: "q \<le> of_int n \<Longrightarrow> rne q \<le> n"
  using rne_mono [of q "of_int n"] by simp

lemma two_powr_int: "2 powr (of_int k) = (2::real) powi k"
  by (simp add: powr_real_of_int')

lemma log_less_powi: "0 < a \<Longrightarrow> log 2 a < of_int k \<longleftrightarrow> a < 2 powi k"
  using log_less_iff [of 2 a "of_int k"] by (simp add: two_powr_int)

lemma le_log_powi: "0 < a \<Longrightarrow> of_int k \<le> log 2 a \<longleftrightarrow> 2 powi k \<le> a"
  using le_log_iff [of 2 a "of_int k"] by (simp add: two_powr_int)

lemma expo_ge: "- 1022 \<le> expo a"
  by (simp add: expo_def)

lemma expo_upper: assumes "0 < a" shows "a < 2 powi (expo a + 1)"
proof -
  have "\<lfloor>log 2 a\<rfloor> + 1 \<le> expo a + 1" by (simp add: expo_def)
  then have "log 2 a < of_int (expo a + 1)" by linarith
  then show ?thesis using log_less_powi [OF assms] by blast
qed

lemma expo_lower: assumes "0 < a" and "- 1022 < expo a" shows "2 powi (expo a) \<le> a"
proof -
  from assms(2) have "expo a = \<lfloor>log 2 a\<rfloor>" by (simp add: expo_def max_def split: if_splits)
  then have "of_int (expo a) \<le> log 2 a" by simp
  then show ?thesis using le_log_powi [OF assms(1)] by blast
qed

lemma expo_mono: assumes "0 < a" "a \<le> b" shows "expo a \<le> expo b"
proof -
  have "log 2 a \<le> log 2 b" using assms by simp
  then have "\<lfloor>log 2 a\<rfloor> \<le> \<lfloor>log 2 b\<rfloor>" by (rule floor_mono)
  then show ?thesis by (simp add: expo_def)
qed

lemma expo_eqI:
  assumes "2 powi k \<le> a" "a < 2 powi (k + 1)" "- 1022 \<le> k"
  shows "expo a = k"
proof -
  have "(0::real) < 2 powi k" by simp
  with assms(1) have pos: "0 < a" by linarith
  have "of_int k \<le> log 2 a" using le_log_powi [OF pos] assms(1) by blast
  moreover have "log 2 a < of_int (k + 1)" using log_less_powi [OF pos] assms(2) by blast
  ultimately have "\<lfloor>log 2 a\<rfloor> = k" by linarith
  then show ?thesis using assms(3) by (simp add: expo_def)
qed

lemma expo_small:
  assumes "0 < a" "a < 2 powi k" "k \<le> - 1021"
  shows "expo a = - 1022"
proof -
  have "log 2 a < of_int k" using log_less_powi [OF assms(1)] assms(2) by blast
  then have "\<lfloor>log 2 a\<rfloor> < k" by linarith
  then show ?thesis using assms(3) by (simp add: expo_def)
qed

lemma two_powi_nat: "0 \<le> p \<Longrightarrow> (2::real) powi p = of_int (2 ^ nat p)"
  by (simp add: power_int_def)

lemma scaled_rne_le:
  assumes "0 \<le> p" "a < 2 powi (e + 1)"
  shows "of_int (rne (a / 2 powi (e - p))) * 2 powi (e - p) \<le> (2::real) powi (e + 1)"
proof -
  let ?u = "(2::real) powi (e - p)"
  have u: "0 < ?u" by simp
  have q: "2 powi (e + 1) / ?u = 2 powi (p + 1)"
    by (subst power_int_diff [symmetric]) (simp_all add: algebra_simps)
  have "a / ?u \<le> 2 powi (e + 1) / ?u"
    using assms(2) u by (simp add: divide_right_mono)
  then have "a / ?u \<le> of_int (2 ^ nat (p + 1))"
    unfolding q using two_powi_nat [of "p + 1"] assms(1) by simp
  then have "rne (a / ?u) \<le> 2 ^ nat (p + 1)" by (rule rne_le)
  then have "real_of_int (rne (a / ?u)) \<le> of_int (2 ^ nat (p + 1))" by (simp only: of_int_le_iff)
  then have "real_of_int (rne (a / ?u)) \<le> 2 powi (p + 1)"
    using two_powi_nat [of "p + 1"] assms(1) by simp
  then have "real_of_int (rne (a / ?u)) * ?u \<le> 2 powi (p + 1) * ?u"
    using u by (simp add: mult_right_mono)
  also have "2 powi (p + 1) * ?u = 2 powi (e + 1)"
    by (subst power_int_add [symmetric]) (simp_all add: algebra_simps)
  finally show ?thesis .
qed

lemma scaled_rne_ge:
  assumes "0 \<le> p" "2 powi e \<le> a"
  shows "(2::real) powi e \<le> of_int (rne (a / 2 powi (e - p))) * 2 powi (e - p)"
proof -
  let ?u = "(2::real) powi (e - p)"
  have u: "0 < ?u" by simp
  have q: "2 powi e / ?u = 2 powi p"
    by (subst power_int_diff [symmetric]) (simp_all add: algebra_simps)
  have "2 powi e / ?u \<le> a / ?u"
    using assms(2) u by (simp add: divide_right_mono)
  then have "of_int (2 ^ nat p) \<le> a / ?u"
    unfolding q using two_powi_nat [of p] assms(1) by simp
  then have "2 ^ nat p \<le> rne (a / ?u)" by (rule rne_ge)
  then have "real_of_int (2 ^ nat p) \<le> of_int (rne (a / ?u))" by (simp only: of_int_le_iff)
  then have "2 powi p \<le> real_of_int (rne (a / ?u))"
    using two_powi_nat [of p] assms(1) by simp
  then have "2 powi p * ?u \<le> real_of_int (rne (a / ?u)) * ?u"
    using u by (simp add: mult_right_mono)
  moreover have "2 powi p * ?u = 2 powi e"
    by (subst power_int_add [symmetric]) (simp_all add: algebra_simps)
  ultimately show ?thesis by simp
qed

lemma ulp_pos [simp]: "0 < ulp a"
  by (simp add: ulp_def)

lemma ulp_nonneg [simp]: "0 \<le> ulp a"
  by (simp add: ulp_def)

lemma ulp_neq0 [simp]: "ulp a \<noteq> 0"
  by (simp add: ulp_def)

lemma rpos_upper: "0 < a \<Longrightarrow> rpos a \<le> 2 powi (expo a + 1)"
  unfolding rpos_def ulp_def by (rule scaled_rne_le) (simp, rule expo_upper)

lemma rpos_lower: "0 < a \<Longrightarrow> - 1022 < expo a \<Longrightarrow> 2 powi (expo a) \<le> rpos a"
  unfolding rpos_def ulp_def by (rule scaled_rne_ge) (simp, rule expo_lower)

lemma rpos_nonneg: "0 \<le> a \<Longrightarrow> 0 \<le> rpos a"
proof -
  assume "0 \<le> a"
  then have "of_int 0 \<le> a / ulp a" using ulp_pos [of a] by (simp add: less_imp_le)
  then have "0 \<le> rne (a / ulp a)" by (rule rne_ge)
  then show ?thesis unfolding rpos_def using ulp_pos [of a]
    by (intro mult_nonneg_nonneg) simp_all
qed

lemma rpos_mono: assumes "0 < a" "a \<le> b" shows "rpos a \<le> rpos b"
proof (cases "expo a = expo b")
  case True
  then have u: "ulp a = ulp b" by (simp add: ulp_def)
  have "a / ulp b \<le> b / ulp b"
    using divide_right_mono [OF assms(2), of "ulp b"] ulp_pos [of b] by simp
  then have "rne (a / ulp b) \<le> rne (b / ulp b)" by (rule rne_mono)
  then show ?thesis unfolding rpos_def u by (simp add: mult_right_mono)
next
  case False
  with expo_mono [OF assms] have lt: "expo a < expo b" by simp
  from assms have b: "0 < b" by simp
  have "rpos a \<le> 2 powi (expo a + 1)" by (rule rpos_upper [OF assms(1)])
  also have "\<dots> \<le> 2 powi (expo b)" using lt by (simp add: power_int_increasing)
  also have "\<dots> \<le> rpos b" using rpos_lower [OF b] lt expo_ge [of a] by simp
  finally show ?thesis .
qed

lemma r64_pos: "0 < x \<Longrightarrow> r64 x = rpos x"
  by (simp add: r64_def rpos_def)

lemma r64_neg: "x < 0 \<Longrightarrow> r64 x = - rpos (- x)"
  by (simp add: r64_def rpos_def)

lemma r64_zero [simp]: "r64 0 = 0"
  by (simp add: r64_def)

lemma r64_minus: "r64 (- x) = - r64 x"
  by (cases "x = 0") (simp_all add: r64_def sgn_minus)

lemma r64_mono: assumes "x \<le> y" shows "r64 x \<le> r64 y"
proof -
  consider "0 < x" | "x = 0" | "x < 0" "y < 0" | "x < 0" "y = 0" | "x < 0" "0 < y" by linarith
  then show ?thesis
  proof cases
    case 1
    then show ?thesis using assms rpos_mono [of x y] by (simp add: r64_pos)
  next
    case 2
    then show ?thesis using assms rpos_nonneg [of y]
      by (cases "y = 0") (simp_all add: r64_pos)
  next
    case 3
    then show ?thesis using assms rpos_mono [of "- y" "- x"] by (simp add: r64_neg)
  next
    case 4
    then show ?thesis using rpos_nonneg [of "- x"] by (simp add: r64_neg)
  next
    case 5
    then show ?thesis using rpos_nonneg [of "- x"] rpos_nonneg [of y]
      by (simp add: r64_neg r64_pos)
  qed
qed


lemma rne_scaled_bounds:
  assumes "0 < a"
  shows "0 \<le> rne (a / ulp a)" and "rne (a / ulp a) \<le> 2 ^ 53"
proof -
  have "of_int 0 \<le> a / ulp a" using assms ulp_pos [of a] by (simp add: less_imp_le)
  then show "0 \<le> rne (a / ulp a)" by (rule rne_ge)
  have q: "2 powi (expo a + 1) / ulp a = 2 powi 53"
    unfolding ulp_def by (subst power_int_diff [symmetric]) (simp_all add: algebra_simps)
  have "a / ulp a \<le> 2 powi (expo a + 1) / ulp a"
    using divide_right_mono [OF less_imp_le [OF expo_upper [OF assms]], of "ulp a"] by simp
  then have "a / ulp a \<le> of_int (2 ^ 53)" unfolding q by simp
  then show "rne (a / ulp a) \<le> 2 ^ 53" by (rule rne_le)
qed

lemma rpos_exact: "a = of_int n * ulp a \<Longrightarrow> rpos a = a"
proof -
  assume a: "a = of_int n * ulp a"
  have "a / ulp a = of_int n * ulp a / ulp a" using a by simp
  also have "\<dots> = of_int n" using ulp_pos [of a] by simp
  finally have "rne (a / ulp a) = n" by simp
  then show ?thesis unfolding rpos_def using a by simp
qed

lemma rpos_dyadic:
  assumes m: "0 < m" "m \<le> 2 ^ 53" and e: "- 1074 \<le> e"
  shows "rpos (of_int m * 2 powi e) = of_int m * 2 powi e"
proof -
  let ?a = "real_of_int m * 2 powi e"
  have pos: "0 < ?a" using m(1) by simp
  show ?thesis
  proof (cases "m = 2 ^ 53")
    case True
    have a: "?a = 2 powi (e + 53)"
      unfolding True by (subst power_int_add) (simp_all add: algebra_simps)
    have k: "expo ?a = e + 53"
      unfolding a by (rule expo_eqI) (use e in \<open>simp_all add: power_int_strict_increasing\<close>)
    have u: "ulp ?a = 2 powi (e + 1)" by (simp add: ulp_def k add.commute)
    have "(2::real) powi (52 + (e + 1)) = 2 powi 52 * 2 powi (e + 1)"
      by (rule power_int_add) simp
    moreover have "52 + (e + 1) = e + 53" by simp
    ultimately have "(2::real) powi (e + 53) = 2 powi 52 * 2 powi (e + 1)" by simp
    then have eq: "(2::real) powi (e + 53) = of_int (2 ^ 52) * 2 powi (e + 1)" by simp
    have "?a = of_int (2 ^ 52) * ulp ?a"
      by (simp only: u, simp only: a eq)
    then show ?thesis by (rule rpos_exact)
  next
    case False
    with m(2) have "m \<le> 2 ^ 53 - 1" by simp
    then have "real_of_int m \<le> of_int (2 ^ 53 - 1)" by (simp only: of_int_le_iff)
    then have "real_of_int m < 2 powi 53" by simp
    then have "?a < 2 powi 53 * 2 powi e" by (simp add: mult_strict_right_mono)
    also have "\<dots> = 2 powi (e + 53)"
      by (subst power_int_add [symmetric]) (simp_all add: algebra_simps)
    finally have lt: "?a < 2 powi (e + 53)" .
    then have "log 2 ?a < of_int (e + 53)" using log_less_powi [OF pos] by blast
    then have "\<lfloor>log 2 ?a\<rfloor> \<le> e + 52" by linarith
    then have k: "expo ?a \<le> e + 52" using e by (simp add: expo_def)
    define d where "d = e - (expo ?a - 52)"
    have d: "0 \<le> d" using k by (simp add: d_def)
    have "2 powi e = 2 powi d * ulp ?a"
      unfolding ulp_def d_def by (subst power_int_add [symmetric]) (simp_all add: algebra_simps)
    then have "?a = of_int m * (of_int (2 ^ nat d) * ulp ?a)"
      using two_powi_nat [OF d] by simp
    then have "?a = of_int (m * 2 ^ nat d) * ulp ?a" by (simp add: algebra_simps)
    then show ?thesis by (rule rpos_exact)
  qed
qed

lemma r64_dyadic:
  assumes "\<bar>m\<bar> \<le> 2 ^ 53" and "- 1074 \<le> e"
  shows "r64 (of_int m * 2 powi e) = of_int m * 2 powi e"
proof -
  consider "0 < m" | "m = 0" | "m < 0" by linarith
  then show ?thesis
  proof cases
    case 1
    then have "0 < real_of_int m * 2 powi e" by simp
    then show ?thesis using rpos_dyadic [of m e] 1 assms by (simp add: r64_pos)
  next
    case 2
    then show ?thesis by simp
  next
    case 3
    then have n: "real_of_int m * 2 powi e < 0" by (simp add: mult_neg_pos)
    have "rpos (of_int (- m) * 2 powi e) = of_int (- m) * 2 powi e"
      by (rule rpos_dyadic) (use 3 assms in simp_all)
    then show ?thesis using n by (simp add: r64_neg)
  qed
qed

lemma r64_form: "\<exists>m e. \<bar>m\<bar> \<le> 2 ^ 53 \<and> - 1074 \<le> e \<and> r64 x = of_int m * 2 powi e"
proof -
  consider "0 < x" | "x = 0" | "x < 0" by linarith
  then show ?thesis
  proof cases
    case 1
    have "\<bar>rne (x / ulp x)\<bar> \<le> 2 ^ 53" using rne_scaled_bounds [OF 1] by simp
    moreover have "- 1074 \<le> expo x - 52" using expo_ge [of x] by simp
    moreover have "r64 x = of_int (rne (x / ulp x)) * 2 powi (expo x - 52)"
      using 1 by (simp add: r64_pos rpos_def ulp_def)
    ultimately show ?thesis by blast
  next
    case 2
    have "\<bar>0::int\<bar> \<le> 2 ^ 53" "- 1074 \<le> (0::int)" "r64 x = of_int 0 * 2 powi 0"
      using 2 by simp_all
    then show ?thesis by blast
  next
    case 3
    then have p: "0 < - x" by simp
    have "\<bar>- rne (- x / ulp (- x))\<bar> \<le> 2 ^ 53" using rne_scaled_bounds [OF p] by simp
    moreover have "- 1074 \<le> expo (- x) - 52" using expo_ge [of "- x"] by simp
    moreover have "r64 x = of_int (- rne (- x / ulp (- x))) * 2 powi (expo (- x) - 52)"
      using 3 by (simp add: r64_neg rpos_def ulp_def)
    ultimately show ?thesis by blast
  qed
qed

lemma r64_idem: "r64 (r64 x) = r64 x"
proof -
  from r64_form [of x] obtain m e where
    "\<bar>m\<bar> \<le> 2 ^ 53" "- 1074 \<le> e" "r64 x = of_int m * 2 powi e" by blast
  then show ?thesis using r64_dyadic [of m e] by simp
qed

lemma r64_eval:
  assumes "2 powi k \<le> a" "a < 2 powi (k + 1)" "- 1022 \<le> k"
  shows "r64 a = of_int (rne (a / 2 powi (k - 52))) * 2 powi (k - 52)"
proof -
  have "(0::real) < 2 powi k" by simp
  with assms(1) have "0 < a" by linarith
  then show ?thesis using expo_eqI [OF assms] by (simp add: r64_pos rpos_def ulp_def)
qed


section \<open>Properties of the scalars\<close>

lemma huge_pos: "0 < huge"
  by (simp add: huge_def)

lemma huge_gt: "(2::real) ^ 64 < huge"
proof -
  have "(2::real) powi 64 < 2 powi 1024" by (rule power_int_strict_increasing) simp_all
  then show ?thesis by (simp add: huge_def)
qed

lemma round64_cases:
  obtains "round64 x = PInf" "huge \<le> r64 x"
  | "round64 x = NInf" "r64 x \<le> - huge"
  | "round64 x = Fin (r64 x)" "- huge < r64 x" "r64 x < huge"
  using huge_pos by (cases "huge \<le> r64 x"; cases "r64 x \<le> - huge") (auto simp: round64_def)

lemmas scalar_ops =
  uminus_scalar_def plus_scalar_def minus_scalar_def times_scalar_def divide_scalar_def
  less_scalar_def less_eq_scalar_def
  scalar_neg_def scalar_add_def scalar_sub_def scalar_mul_def scalar_div_def
  scalar_lt_def scalar_le_def isnan_def isinf_def std_max_def std_min_def

lemma round64_not_nan [simp]: "round64 x \<noteq> NaN" "\<not> isnan (round64 x)"
  by (cases x rule: round64_cases; simp add: isnan_def)+

lemma round64_mono: assumes "x \<le> y" shows "round64 x \<le> round64 y"
proof -
  note m = r64_mono [OF assms]
  show ?thesis
    by (cases x rule: round64_cases; cases y rule: round64_cases)
      (use m huge_pos in \<open>simp_all add: less_eq_scalar_def scalar_le_def\<close>)
qed

lemma round64_exact: "r64 x = x \<Longrightarrow> \<bar>x\<bar> < huge \<Longrightarrow> round64 x = Fin x"
  by (auto simp: round64_def)

lemma round64_0 [simp]: "round64 0 = Fin 0"
  using huge_pos by (simp add: round64_exact)

lemma round64_idem: "round64 x = Fin y \<Longrightarrow> round64 y = Fin y"
proof -
  assume a: "round64 x = Fin y"
  then have y: "y = r64 x" "\<bar>r64 x\<bar> < huge"
    by (cases x rule: round64_cases; simp)+
  then show ?thesis using r64_idem [of x] by (simp add: round64_exact)
qed

lemma round64_dyadic:
  assumes "\<bar>m\<bar> \<le> 2 ^ 53" and "- 1074 \<le> e" and "\<bar>of_int m * 2 powi e\<bar> < huge"
  shows "round64 (of_int m * 2 powi e) = Fin (of_int m * 2 powi e)"
  using r64_dyadic [OF assms(1,2)] assms(3) by (rule round64_exact)

lemma round64_int:
  assumes "\<bar>m\<bar> \<le> 2 ^ 53"
  shows "round64 (of_int m) = Fin (of_int m)"
proof -
  have "\<bar>real_of_int m\<bar> \<le> of_int (2 ^ 53)" using assms by (simp only: of_int_abs [symmetric] of_int_le_iff)
  also have "\<dots> < 2 ^ 64" by simp
  finally have "\<bar>real_of_int m\<bar> < huge" using huge_gt by linarith
  then show ?thesis using round64_dyadic [OF assms, of 0] by simp
qed

lemma round64_nonneg: "0 \<le> x \<Longrightarrow> Fin 0 \<le> round64 x"
  using round64_mono [of 0 x] by simp

lemma round64_nonpos: "x \<le> 0 \<Longrightarrow> round64 x \<le> Fin 0"
  using round64_mono [of x 0] by simp

lemma round64_values [simp]:
  "round64 1 = Fin 1" "round64 2 = Fin 2" "round64 (- 1) = Fin (- 1)"
  "round64 (1/2) = Fin (1/2)" "round64 (1/4) = Fin (1/4)" "round64 (3/8) = Fin (3/8)"
  "round64 (3/4) = Fin (3/4)" "round64 (9/8) = Fin (9/8)"
proof -
  have h: "\<bar>x\<bar> \<le> 4 \<Longrightarrow> \<bar>x\<bar> < huge" for x :: real using huge_gt by simp
  show "round64 1 = Fin 1" using round64_int [of 1] by simp
  show "round64 2 = Fin 2" using round64_int [of 2] by simp
  show "round64 (- 1) = Fin (- 1)" using round64_int [of "- 1"] by simp
  show "round64 (1/2) = Fin (1/2)" using round64_dyadic [of 1 "- 1"] h [of "1/2"] by simp
  show "round64 (1/4) = Fin (1/4)" using round64_dyadic [of 1 "- 2"] h [of "1/4"] by simp
  show "round64 (3/8) = Fin (3/8)" using round64_dyadic [of 3 "- 3"] h [of "3/8"] by simp
  show "round64 (3/4) = Fin (3/4)" using round64_dyadic [of 3 "- 2"] h [of "3/4"] by simp
  show "round64 (9/8) = Fin (9/8)" using round64_dyadic [of 9 "- 3"] h [of "9/8"] by simp
qed

lemma Fin_simps [simp]:
  "Fin x + Fin y = round64 (x + y)"
  "Fin x - Fin y = round64 (x - y)"
  "Fin x * Fin y = round64 (x * y)"
  "Fin x < Fin y \<longleftrightarrow> x < y"
  "Fin x \<le> Fin y \<longleftrightarrow> x \<le> y"
  "std_max (Fin x) (Fin y) = Fin (max x y)"
  "std_min (Fin x) (Fin y) = Fin (min x y)"
  "\<not> isnan (Fin x)" "\<not> isinf (Fin x)"
  by (simp_all add: scalar_ops)

lemma is_double_round64 [simp]: "is_double (round64 x)"
  by (cases x rule: round64_cases) (simp_all add: is_double_def round64_idem)

lemma is_double_ops [simp]: "is_double (x + y)" "is_double (x * y)" "is_double (x - y)"
  by (cases x; cases y; simp add: scalar_ops is_double_def round64_idem split: scalar.splits)+

lemma scalar_zero_add_double: "is_double x \<Longrightarrow> Fin 0 + x = x"
  by (cases x) (simp_all add: scalar_ops is_double_def)

section \<open>The kernel and the loop over the box\<close>

lemmas sample_defs = flat_numeric_def sample_model_def uniform_fields_def uniform_def unit_DX_def

lemma std_max_nonneg: "\<not> isnan r \<Longrightarrow> Fin 0 \<le> std_max (Fin 0) r"
  by (cases r) (simp_all add: scalar_ops)

lemma mul_not_nan: "\<not> isnan (a * b) \<Longrightarrow> \<not> isnan a \<and> \<not> isnan b"
  by (cases a; cases b) (simp_all add: scalar_ops)

lemma mul_nonneg: "Fin 0 \<le> a \<Longrightarrow> Fin 0 \<le> b \<Longrightarrow> \<not> isnan (a * b) \<Longrightarrow> Fin 0 \<le> a * b"
proof (cases a; cases b)
  fix x y assume "Fin 0 \<le> a" "Fin 0 \<le> b" "a = Fin x" "b = Fin y"
  then show "Fin 0 \<le> a * b" by (simp add: round64_nonneg)
qed (simp_all add: scalar_ops split: if_splits)

lemma sub_nonneg_le: "Fin 0 \<le> p \<Longrightarrow> is_double (Fin x) \<Longrightarrow> Fin x - p \<le> Fin x"
proof (cases p)
  case (Fin y)
  assume "Fin 0 \<le> p" and d: "is_double (Fin x)"
  with Fin have "x - y \<le> x" by simp
  then have "round64 (x - y) \<le> round64 x" by (rule round64_mono)
  then show ?thesis using d Fin by (simp add: is_double_def)
qed (simp_all add: scalar_ops)

lemma clamp_fst:
  "fst (CrackProblem_clamp v) =
     (if v > Fin 1 then Fin 1 else if v < Fin 0 then Fin 0 else v)"
  by (cases v) (simp_all add: CrackProblem_clamp_def scalar_ops)

lemma clamp_snd:
  "snd (CrackProblem_clamp v) =
     (if v > Fin 1 then [Resetting_to_1 v] else if v < Fin 0 then [Resetting_to_0 v] else [])"
  by (cases v) (simp_all add: CrackProblem_clamp_def scalar_ops)

lemma clamp_range: "\<not> isnan v \<Longrightarrow> Fin 0 \<le> fst (CrackProblem_clamp v) \<and> fst (CrackProblem_clamp v) \<le> Fin 1"
  by (cases v) (simp_all add: clamp_fst scalar_ops)

lemma clamp_nan: "isnan (fst (CrackProblem_clamp v)) \<longleftrightarrow> isnan v"
  by (cases v) (simp_all add: clamp_fst scalar_ops)

lemma clamp_le: "v \<le> Fin x \<Longrightarrow> 0 \<le> x \<Longrightarrow> x \<le> 1 \<Longrightarrow> fst (CrackProblem_clamp v) \<le> Fin x"
  by (cases v) (simp_all add: clamp_fst scalar_ops)

lemma CrackProblem_cell_eq:
  "CrackProblem_cell num b dt DX c_old en ijk =
     (if isnan (cell_rhs num b DX c_old en ijk)
      then Inl (Abort_Dwphi (Dw_phi b (c_old ijk) (Fin 0)) (c_old ijk))
      else Inr \<lparr>df0 = Dg_phi b (c_old ijk) (Fin 0) * NodeToCellAverage num en ijk,
                df1 = Epc b (atan2 num (Gradient num c_old ijk DX 1) (Gradient num c_old ijk DX 0))
                        * Dw_phi b (c_old ijk) (Fin 0),
                df2 = kappa b (atan2 num (Gradient num c_old ijk DX 1) (Gradient num c_old ijk DX 0))
                        * Laplacian num c_old ijk DX,
                df3 = std_max (Fin 0) (cell_rhs num b DX c_old en ijk),
                c_new = fst (CrackProblem_clamp (cell_raw num b dt DX c_old en ijk)),
                notices = snd (CrackProblem_clamp (cell_raw num b dt DX c_old en ijk))\<rparr>)"
  by (simp add: CrackProblem_cell_def cell_rhs_def cell_raw_def Let_def split: prod.split)

lemma CrackProblem_box_Inr:
  "CrackProblem_box num b dt DX bx st = Inr st' \<Longrightarrow>
     m_c_old st' = m_c_old st \<and> m_energy_pristine st' = m_energy_pristine st \<and>
     (\<forall>ijk \<in> set bx. \<not> isnan (cell_rhs num b DX (m_c_old st) (m_energy_pristine st) ijk) \<and>
        m_c st' ijk = fst (CrackProblem_clamp
          (cell_raw num b dt DX (m_c_old st) (m_energy_pristine st) ijk))) \<and>
     (\<forall>ijk. ijk \<notin> set bx \<longrightarrow> m_c st' ijk = m_c st ijk)"
proof (induction bx arbitrary: st)
  case Nil
  then show ?case by simp
next
  case (Cons a bx)
  let ?r = "cell_rhs num b DX (m_c_old st) (m_energy_pristine st) a"
  from Cons.prems have nn: "\<not> isnan ?r"
    by (auto simp: CrackProblem_cell_eq split: if_splits)
  then obtain u where u: "CrackProblem_cell num b dt DX (m_c_old st) (m_energy_pristine st) a = Inr u"
    and cu: "c_new u = fst (CrackProblem_clamp (cell_raw num b dt DX (m_c_old st) (m_energy_pristine st) a))"
    by (simp add: CrackProblem_cell_eq)
  let ?st1 = "st\<lparr>m_c := (m_c st)(a := c_new u),
                m_driving_force := (m_driving_force st)
                  (a := (\<lambda>n. if n = 0 then df0 u else if n = 1 then df1 u
                                else if n = 2 then df2 u else df3 u)),
                messages := messages st @ notices u\<rparr>"
  from Cons.prems u have rec: "CrackProblem_box num b dt DX bx ?st1 = Inr st'"
    by simp
  note IH = Cons.IH [OF rec]
  show ?case
  proof (intro conjI ballI allI impI)
    show "m_c_old st' = m_c_old st" using IH by simp
    show "m_energy_pristine st' = m_energy_pristine st" using IH by simp
  next
    fix ijk assume "ijk \<in> set (a # bx)"
    then show "\<not> isnan (cell_rhs num b DX (m_c_old st) (m_energy_pristine st) ijk)"
      using IH nn by auto
  next
    fix ijk assume mem: "ijk \<in> set (a # bx)"
    show "m_c st' ijk = fst (CrackProblem_clamp
          (cell_raw num b dt DX (m_c_old st) (m_energy_pristine st) ijk))"
    proof (cases "ijk \<in> set bx")
      case True
      then show ?thesis using IH by simp
    next
      case False
      with mem have "ijk = a" by simp
      moreover from False IH have "m_c st' ijk = m_c ?st1 ijk" by blast
      ultimately show ?thesis using cu by simp
    qed
  next
    fix ijk assume "ijk \<notin> set (a # bx)"
    then have ne: "ijk \<noteq> a" and nb: "ijk \<notin> set bx" by auto
    from nb IH have "m_c st' ijk = m_c ?st1 ijk" by blast
    with ne show "m_c st' ijk = m_c st ijk" by simp
  qed
qed


lemma CrackProblem_box_messages:
  "CrackProblem_box num b dt DX bx st = Inr st' \<Longrightarrow>
     messages st' = messages st @
       concat (map (\<lambda>ijk. snd (CrackProblem_clamp
          (cell_raw num b dt DX (m_c_old st) (m_energy_pristine st) ijk))) bx)"
proof (induction bx arbitrary: st)
  case Nil
  then show ?case by simp
next
  case (Cons a bx)
  from Cons.prems have nn: "\<not> isnan (cell_rhs num b DX (m_c_old st) (m_energy_pristine st) a)"
    by (auto simp: CrackProblem_cell_eq split: if_splits)
  with Cons.prems Cons.IH show ?case
    by (simp add: CrackProblem_cell_eq)
qed

lemma CrackProblem_box_total:
  "\<forall>c \<in> set bx. \<not> isnan (cell_rhs num b DX (m_c_old st) (m_energy_pristine st) c) \<Longrightarrow>
     \<exists>st'. CrackProblem_box num b dt DX bx st = Inr st'"
proof (induction bx arbitrary: st)
  case Nil
  then show ?case by simp
next
  case (Cons a bx)
  then show ?case by (simp add: CrackProblem_cell_eq)
qed

lemma CrackProblem_box_abort:
  "c \<in> set bx \<Longrightarrow> isnan (cell_rhs num b DX (m_c_old st) (m_energy_pristine st) c) \<Longrightarrow>
     \<exists>c' \<in> set bx. isnan (cell_rhs num b DX (m_c_old st) (m_energy_pristine st) c') \<and>
       CrackProblem_box num b dt DX bx st =
         Inl (Abort_Dwphi (Dw_phi b (m_c_old st c') (Fin 0)) (m_c_old st c'))"
proof (induction bx arbitrary: st)
  case Nil
  then show ?case by simp
next
  case (Cons a bx)
  show ?case
  proof (cases "isnan (cell_rhs num b DX (m_c_old st) (m_energy_pristine st) a)")
    case True
    then show ?thesis by (auto simp: CrackProblem_cell_eq)
  next
    case False
    with Cons.prems have mem: "c \<in> set bx" by auto
    from False obtain u where
      u: "CrackProblem_cell num b dt DX (m_c_old st) (m_energy_pristine st) a = Inr u"
      by (simp add: CrackProblem_cell_eq)
    let ?st1 = "st\<lparr>m_c := (m_c st)(a := c_new u),
                m_driving_force := (m_driving_force st)
                  (a := (\<lambda>n. if n = 0 then df0 u else if n = 1 then df1 u
                                else if n = 2 then df2 u else df3 u)),
                messages := messages st @ notices u\<rparr>"
    have "isnan (cell_rhs num b DX (m_c_old ?st1) (m_energy_pristine ?st1) c)"
      using Cons.prems(2) by simp
    from Cons.IH [OF mem this] obtain c' where
      "c' \<in> set bx" "isnan (cell_rhs num b DX (m_c_old st) (m_energy_pristine st) c')"
      "CrackProblem_box num b dt DX bx ?st1 =
         Inl (Abort_Dwphi (Dw_phi b (m_c_old st c') (Fin 0)) (m_c_old st c'))"
      by auto
    then show ?thesis using u by auto
  qed
qed

lemma rhs_formula:
  "CrackProblem_rhs b Theta laplacian en_cell c =
     Dg_phi b c (Fin 0) * en_cell + Epc b Theta * Dw_phi b c (Fin 0) - kappa b Theta * laplacian"
  by (simp add: CrackProblem_rhs_def Let_def scalar_zero_add_double)

lemma explicit_le:
  assumes "Fin 0 \<le> dt" "Fin 0 \<le> mob" "\<not> isnan r" "\<not> isnan (dt * std_max (Fin 0) r * mob)"
    and "is_double (Fin x)"
  shows "Fin x - dt * std_max (Fin 0) r * mob \<le> Fin x"
proof -
  from assms(4) have n1: "\<not> isnan (dt * std_max (Fin 0) r)" using mul_not_nan by blast
  have "Fin 0 \<le> dt * std_max (Fin 0) r"
    using mul_nonneg [OF assms(1) std_max_nonneg [OF assms(3)] n1] .
  then have "Fin 0 \<le> dt * std_max (Fin 0) r * mob"
    using mul_nonneg assms(2,4) by blast
  then show ?thesis using assms(5) by (rule sub_nonneg_le)
qed


section \<open>The damage update\<close>



lemma CrackProblem_Inr:
  assumes "CrackProblem num b dt DX bx st = Inr st'" and "ijk \<in> set bx"
  shows "\<not> isnan (cell_rhs num b DX (m_c st) (m_energy_pristine st) ijk)"
    and "m_c st' ijk =
           fst (CrackProblem_clamp (cell_raw num b dt DX (m_c st) (m_energy_pristine st) ijk))"
    and "set (snd (CrackProblem_clamp (cell_raw num b dt DX (m_c st) (m_energy_pristine st) ijk)))
           \<subseteq> set (messages st')"
  using CrackProblem_box_Inr [OF assms(1) [unfolded CrackProblem_def]]
    CrackProblem_box_messages [OF assms(1) [unfolded CrackProblem_def]] assms(2)
  by auto

text \<open>
  C2, as stated, fails: with an infinite pristine energy and a mobility of zero the
  force is infinite, the kernel does not abort, the product \<open>dt * rhs * mobility\<close> is
  NaN, and neither reset applies to the NaN it stores.
\<close>

theorem CrackProblem_counterexample_range:
  "CrackProblem_cell flat_numeric (sample_model (Fin 0)) (Fin 1) unit_DX
      (uniform (Fin 1)) (uniform PInf) (0, 0, 0) =
     Inr \<lparr>df0 = PInf, df1 = Fin 0, df2 = Fin 0, df3 = PInf, c_new = NaN, notices = []\<rparr>
   \<and> \<not> (Fin 0 \<le> NaN \<and> NaN \<le> Fin 1)"
  by (simp add: CrackProblem_cell_eq cell_rhs_def cell_raw_def rhs_formula
      CrackProblem_explicit_def sample_defs clamp_fst clamp_snd scalar_ops)

text \<open>
  C2, amended. When no cell of the box has a NaN force, \<open>CrackProblem\<close> completes, and
  in every cell of the box whose explicit result is not NaN the new damage lies in
  \<open>[0,1]\<close>: a result above 1 is reset to 1 and one below 0 to 0, each with its
  notice, and a result inside the interval is kept. A result out of range never aborts.
  A NaN result stays NaN.
\<close>

theorem CrackProblem_clamps_unless_nan:
  assumes "\<forall>c \<in> set bx. \<not> isnan (cell_rhs num b DX (m_c st) (m_energy_pristine st) c)"
  shows "\<exists>st'. CrackProblem num b dt DX bx st = Inr st' \<and>
           (\<forall>ijk \<in> set bx.
              let v = cell_raw num b dt DX (m_c st) (m_energy_pristine st) ijk in
                (\<not> isnan v \<longrightarrow> Fin 0 \<le> m_c st' ijk \<and> m_c st' ijk \<le> Fin 1) \<and>
                (Fin 1 < v \<longrightarrow> m_c st' ijk = Fin 1 \<and> Resetting_to_1 v \<in> set (messages st')) \<and>
                (v < Fin 0 \<longrightarrow> m_c st' ijk = Fin 0 \<and> Resetting_to_0 v \<in> set (messages st')) \<and>
                (Fin 0 \<le> v \<and> v \<le> Fin 1 \<longrightarrow> m_c st' ijk = v) \<and>
                (isnan v \<longrightarrow> isnan (m_c st' ijk)))"
proof -
  from assms obtain st' where st': "CrackProblem num b dt DX bx st = Inr st'"
    unfolding CrackProblem_def
    using CrackProblem_box_total [of bx num b DX "st\<lparr>m_c := m_c_old st, m_c_old := m_c st\<rparr>" dt]
    by auto
  have "\<forall>ijk \<in> set bx.
              let v = cell_raw num b dt DX (m_c st) (m_energy_pristine st) ijk in
                (\<not> isnan v \<longrightarrow> Fin 0 \<le> m_c st' ijk \<and> m_c st' ijk \<le> Fin 1) \<and>
                (Fin 1 < v \<longrightarrow> m_c st' ijk = Fin 1 \<and> Resetting_to_1 v \<in> set (messages st')) \<and>
                (v < Fin 0 \<longrightarrow> m_c st' ijk = Fin 0 \<and> Resetting_to_0 v \<in> set (messages st')) \<and>
                (Fin 0 \<le> v \<and> v \<le> Fin 1 \<longrightarrow> m_c st' ijk = v) \<and>
                (isnan v \<longrightarrow> isnan (m_c st' ijk))"
  proof
    fix ijk assume mem: "ijk \<in> set bx"
    let ?v = "cell_raw num b dt DX (m_c st) (m_energy_pristine st) ijk"
    note r = CrackProblem_Inr [OF st' mem]
    have 1: "\<not> isnan ?v \<longrightarrow> Fin 0 \<le> m_c st' ijk \<and> m_c st' ijk \<le> Fin 1"
      using r(2) clamp_range [of ?v] by simp
    have 2: "Fin 1 < ?v \<longrightarrow> m_c st' ijk = Fin 1 \<and> Resetting_to_1 ?v \<in> set (messages st')"
      using r(2,3) by (auto simp: clamp_fst clamp_snd)
    have 3: "?v < Fin 0 \<longrightarrow> m_c st' ijk = Fin 0 \<and> Resetting_to_0 ?v \<in> set (messages st')"
      using r(2,3) by (cases ?v) (auto simp: clamp_fst clamp_snd scalar_ops)
    have 4: "Fin 0 \<le> ?v \<and> ?v \<le> Fin 1 \<longrightarrow> m_c st' ijk = ?v"
      using r(2) by (cases ?v) (auto simp: clamp_fst scalar_ops)
    have 5: "isnan ?v \<longrightarrow> isnan (m_c st' ijk)"
      using r(2) by (simp add: clamp_nan)
    from 1 2 3 4 5 show "let v = ?v in
                (\<not> isnan v \<longrightarrow> Fin 0 \<le> m_c st' ijk \<and> m_c st' ijk \<le> Fin 1) \<and>
                (Fin 1 < v \<longrightarrow> m_c st' ijk = Fin 1 \<and> Resetting_to_1 v \<in> set (messages st')) \<and>
                (v < Fin 0 \<longrightarrow> m_c st' ijk = Fin 0 \<and> Resetting_to_0 v \<in> set (messages st')) \<and>
                (Fin 0 \<le> v \<and> v \<le> Fin 1 \<longrightarrow> m_c st' ijk = v) \<and>
                (isnan v \<longrightarrow> isnan (m_c st' ijk))"
      unfolding Let_def by blast
  qed
  with st' show ?thesis by blast
qed

lemma uniform_fields_simps [simp]:
  "m_c (uniform_fields c e) = uniform c"
  "m_c_old (uniform_fields c e) = uniform c"
  "m_energy_pristine (uniform_fields c e) = uniform e"
  "messages (uniform_fields c e) = []"
  by (simp_all add: uniform_fields_def uniform_def)

lemma sample_rhs:
  "cell_rhs flat_numeric (sample_model mob) DX (uniform (Fin 1)) (uniform (Fin 1)) ijk = Fin 2"
  "cell_rhs flat_numeric (sample_model mob) DX (uniform (Fin 1)) (uniform (Fin (1/4))) ijk
     = Fin (1/2)"
  by (simp_all add: cell_rhs_def rhs_formula flat_numeric_def sample_model_def uniform_def)

lemma sample_raw:
  "cell_raw flat_numeric (sample_model (Fin 1)) (Fin 1) DX (uniform (Fin 1)) (uniform (Fin 1)) ijk
     = Fin (- 1)"
  "cell_raw flat_numeric (sample_model (Fin 1)) (Fin 1) DX (uniform (Fin 1))
     (uniform (Fin (1/4))) ijk = Fin (1/2)"
  by (simp_all add: cell_raw_def sample_rhs CrackProblem_explicit_def)
    (simp_all add: sample_model_def uniform_def)

theorem CrackProblem_clamps_unless_nan_witness:
  "\<exists>st'. CrackProblem flat_numeric (sample_model (Fin 1)) (Fin 1) unit_DX [(0, 0, 0)]
            (uniform_fields (Fin 1) (Fin 1)) = Inr st' \<and>
         m_c st' (0, 0, 0) = Fin 0 \<and> Resetting_to_0 (Fin (- 1)) \<in> set (messages st')"
  using CrackProblem_clamps_unless_nan [where bx = "[(0, 0, 0)]" and num = flat_numeric
      and b = "sample_model (Fin 1)" and DX = unit_DX and st = "uniform_fields (Fin 1) (Fin 1)"
      and dt = "Fin 1"]
  by (auto simp: sample_rhs sample_raw)


section \<open>Irreversibility\<close>

text \<open>
  C3, as stated, fails: with \<open>dt = 0\<close>, a mobility of 1, \<open>c_old = 1\<close> and an infinite
  pristine energy the preconditions hold, the force is infinite, the product
  \<open>dt * rhs\<close> is NaN, and the NaN that the kernel stores is not below \<open>c_old\<close>.
\<close>

theorem CrackProblem_counterexample_healing:
  "Fin 0 \<le> Fin 0 \<and> Fin 0 \<le> GetMobility (sample_model (Fin 1)) (uniform (Fin 1) (0, 0, 0))
   \<and> Fin 0 \<le> uniform (Fin 1) (0, 0, 0) \<and> uniform (Fin 1) (0, 0, 0) \<le> Fin 1
   \<and> CrackProblem_cell flat_numeric (sample_model (Fin 1)) (Fin 0) unit_DX
        (uniform (Fin 1)) (uniform PInf) (0, 0, 0) =
       Inr \<lparr>df0 = PInf, df1 = Fin 0, df2 = Fin 0, df3 = PInf, c_new = NaN, notices = []\<rparr>
   \<and> \<not> (NaN \<le> uniform (Fin 1) (0, 0, 0))"
  by (simp add: CrackProblem_cell_eq cell_rhs_def cell_raw_def rhs_formula
      CrackProblem_explicit_def sample_defs clamp_fst clamp_snd scalar_ops)

text \<open>
  C3, amended. When no cell of the box has a NaN force, \<open>CrackProblem\<close> completes, and
  in every cell of the box with \<open>dt \<ge> 0\<close>, \<open>GetMobility(c_old) \<ge> 0\<close>,
  \<open>0 \<le> c_old \<le> 1\<close>, \<open>c_old\<close> a double, and a product
  \<open>dt * max(0, rhs) * GetMobility(c_old)\<close> that is not NaN, the new damage is at most the
  old one, which the update keeps in \<open>m_c_old\<close>.
\<close>

theorem CrackProblem_irreversible:
  assumes "\<forall>c \<in> set bx. \<not> isnan (cell_rhs num b DX (m_c st) (m_energy_pristine st) c)"
  shows "\<exists>st'. CrackProblem num b dt DX bx st = Inr st' \<and>
           (\<forall>ijk \<in> set bx.
              Fin 0 \<le> dt \<and> Fin 0 \<le> GetMobility b (m_c st ijk) \<and>
              Fin 0 \<le> m_c st ijk \<and> m_c st ijk \<le> Fin 1 \<and> is_double (m_c st ijk) \<and>
              \<not> isnan (dt * std_max (Fin 0)
                    (cell_rhs num b DX (m_c st) (m_energy_pristine st) ijk)
                    * GetMobility b (m_c st ijk))
              \<longrightarrow> m_c st' ijk \<le> m_c st ijk \<and> m_c_old st' ijk = m_c st ijk)"
proof -
  from assms obtain st' where run: "CrackProblem num b dt DX bx st = Inr st'"
    unfolding CrackProblem_def
    using CrackProblem_box_total [of bx num b DX "st\<lparr>m_c := m_c_old st, m_c_old := m_c st\<rparr>" dt]
    by auto
  have "m_c st' ijk \<le> m_c st ijk \<and> m_c_old st' ijk = m_c st ijk"
    if mem: "ijk \<in> set bx"
      and pre: "Fin 0 \<le> dt \<and> Fin 0 \<le> GetMobility b (m_c st ijk) \<and>
              Fin 0 \<le> m_c st ijk \<and> m_c st ijk \<le> Fin 1 \<and> is_double (m_c st ijk) \<and>
              \<not> isnan (dt * std_max (Fin 0)
                    (cell_rhs num b DX (m_c st) (m_energy_pristine st) ijk)
                    * GetMobility b (m_c st ijk))"
    for ijk
  proof -
    note r = CrackProblem_Inr [OF run mem]
    from pre obtain x where x: "m_c st ijk = Fin x" "0 \<le> x" "x \<le> 1"
      by (cases "m_c st ijk") (simp_all add: scalar_ops)
    from pre x(1) have dbl: "is_double (Fin x)" by simp
    from pre have dt: "Fin 0 \<le> dt" and mob: "Fin 0 \<le> GetMobility b (m_c st ijk)"
      and step: "\<not> isnan (dt * std_max (Fin 0)
                    (cell_rhs num b DX (m_c st) (m_energy_pristine st) ijk)
                    * GetMobility b (m_c st ijk))"
      by simp_all
    have "cell_raw num b dt DX (m_c st) (m_energy_pristine st) ijk \<le> Fin x"
      unfolding cell_raw_def CrackProblem_explicit_def x(1) [symmetric]
      using explicit_le [OF dt mob r(1) step dbl] x(1) by simp
    from clamp_le [OF this x(2,3)] r(2) x(1) have "m_c st' ijk \<le> m_c st ijk" by simp
    moreover have "m_c_old st' ijk = m_c st ijk"
      using CrackProblem_box_Inr [OF run [unfolded CrackProblem_def]] by simp
    ultimately show ?thesis ..
  qed
  with run show ?thesis by blast
qed

theorem CrackProblem_irreversible_witness:
  "\<exists>st'. CrackProblem flat_numeric (sample_model (Fin 1)) (Fin 1) unit_DX [(0, 0, 0)]
            (uniform_fields (Fin 1) (Fin (1/4))) = Inr st' \<and>
         m_c st' (0, 0, 0) \<le> Fin 1 \<and> m_c_old st' (0, 0, 0) = Fin 1"
proof -
  have m: "GetMobility (sample_model (Fin 1)) (Fin 1) = Fin 1"
    "uniform (Fin 1) (0, 0, 0) = Fin 1"
    by (simp_all add: sample_model_def uniform_def)
  show ?thesis
    using CrackProblem_irreversible [where bx = "[(0, 0, 0)]" and num = flat_numeric
      and b = "sample_model (Fin 1)" and DX = unit_DX
      and st = "uniform_fields (Fin 1) (Fin (1/4))" and dt = "Fin 1"]
    by (auto simp: sample_rhs m is_double_def)
qed

section \<open>The abort of the kernel\<close>

text \<open>
  C7, as stated, fails for an infinite force: with an infinite pristine energy the force
  is \<open>+\<infinity>\<close>, the kernel does not abort, and the damage is reset to 0 with a notice.
\<close>

theorem CrackProblem_counterexample_infinite:
  "isinf (cell_rhs flat_numeric (sample_model (Fin 1)) unit_DX
      (uniform (Fin 1)) (uniform PInf) (0, 0, 0))
   \<and> CrackProblem_cell flat_numeric (sample_model (Fin 1)) (Fin 1) unit_DX
        (uniform (Fin 1)) (uniform PInf) (0, 0, 0) =
       Inr \<lparr>df0 = PInf, df1 = Fin 0, df2 = Fin 0, df3 = PInf, c_new = Fin 0,
            notices = [Resetting_to_0 NInf]\<rparr>"
  by (simp add: CrackProblem_cell_eq cell_rhs_def cell_raw_def rhs_formula
      CrackProblem_explicit_def sample_defs clamp_fst clamp_snd scalar_ops)

text \<open>
  C7, amended. The kernel aborts exactly when the force of the cell is NaN, and the abort
  carries \<open>Dw_phi(c_old)\<close> and \<open>c_old\<close>; for any other force, infinite ones included,
  it returns an update. A cell of the box with a NaN force makes \<open>CrackProblem\<close> end in
  the abort of such a cell: nothing recovers from it.
\<close>

theorem CrackProblem_aborts_on_nan:
  "(isnan (cell_rhs num b DX c_old en ijk) \<longrightarrow>
      CrackProblem_cell num b dt DX c_old en ijk =
        Inl (Abort_Dwphi (Dw_phi b (c_old ijk) (Fin 0)) (c_old ijk))) \<and>
   (\<not> isnan (cell_rhs num b DX c_old en ijk) \<longrightarrow>
      (\<exists>u. CrackProblem_cell num b dt DX c_old en ijk = Inr u)) \<and>
   (ijk \<in> set bx \<and> isnan (cell_rhs num b DX (m_c st) (m_energy_pristine st) ijk) \<longrightarrow>
      (\<exists>c \<in> set bx. isnan (cell_rhs num b DX (m_c st) (m_energy_pristine st) c) \<and>
         CrackProblem num b dt DX bx st =
           Inl (Abort_Dwphi (Dw_phi b (m_c st c) (Fin 0)) (m_c st c))))"
proof (intro conjI impI)
  assume "isnan (cell_rhs num b DX c_old en ijk)"
  then show "CrackProblem_cell num b dt DX c_old en ijk =
        Inl (Abort_Dwphi (Dw_phi b (c_old ijk) (Fin 0)) (c_old ijk))"
    by (simp add: CrackProblem_cell_eq)
next
  assume "\<not> isnan (cell_rhs num b DX c_old en ijk)"
  then show "\<exists>u. CrackProblem_cell num b dt DX c_old en ijk = Inr u"
    by (simp add: CrackProblem_cell_eq)
next
  assume a: "ijk \<in> set bx \<and> isnan (cell_rhs num b DX (m_c st) (m_energy_pristine st) ijk)"
  let ?st = "st\<lparr>m_c := m_c_old st, m_c_old := m_c st\<rparr>"
  from a have "ijk \<in> set bx" "isnan (cell_rhs num b DX (m_c_old ?st) (m_energy_pristine ?st) ijk)"
    by simp_all
  from CrackProblem_box_abort [OF this, of dt]
  show "\<exists>c \<in> set bx. isnan (cell_rhs num b DX (m_c st) (m_energy_pristine st) c) \<and>
         CrackProblem num b dt DX bx st =
           Inl (Abort_Dwphi (Dw_phi b (m_c st c) (Fin 0)) (m_c st c))"
    by (simp add: CrackProblem_def)
qed

theorem CrackProblem_aborts_on_nan_witness:
  "isnan (cell_rhs flat_numeric (sample_model (Fin 1)) unit_DX (uniform (Fin 1)) (uniform NaN) (0, 0, 0))
   \<and> CrackProblem_cell flat_numeric (sample_model (Fin 1)) (Fin 1) unit_DX
        (uniform (Fin 1)) (uniform NaN) (0, 0, 0) = Inl (Abort_Dwphi (Fin 0) (Fin 1))
   \<and> CrackProblem flat_numeric (sample_model (Fin 1)) (Fin 1) unit_DX [(0, 0, 0)]
        (uniform_fields (Fin 1) NaN) = Inl (Abort_Dwphi (Fin 0) (Fin 1))"
proof -
  have n: "isnan (cell_rhs flat_numeric (sample_model (Fin 1)) unit_DX (uniform (Fin 1))
      (uniform NaN) (0, 0, 0))"
    by (simp add: cell_rhs_def rhs_formula sample_defs scalar_ops)
  have d: "Dw_phi (sample_model (Fin 1)) (uniform (Fin 1) (0, 0, 0)) (Fin 0) = Fin 0"
    "uniform (Fin 1) (0, 0, 0) = Fin 1"
    by (simp_all add: sample_defs)
  show ?thesis
    using n d CrackProblem_aborts_on_nan [where num = flat_numeric and b = "sample_model (Fin 1)"
      and DX = unit_DX and c_old = "uniform (Fin 1)" and en = "uniform NaN" and ijk = "(0, 0, 0)"
      and dt = "Fin 1" and bx = "[(0, 0, 0)]" and st = "uniform_fields (Fin 1) NaN"]
    by simp
qed

section \<open>The degradation factor\<close>

lemma round64_values2 [simp]:
  "round64 3 = Fin 3" "round64 4 = Fin 4"
  using round64_int [of 3] round64_int [of 4] by simp_all

lemma one_minus_unit:
  "Fin 0 \<le> v \<Longrightarrow> v \<le> Fin 1 \<Longrightarrow> Fin 0 \<le> Fin 1 - v \<and> Fin 1 - v \<le> Fin 1"
proof (cases v)
  case (Fin c)
  assume "Fin 0 \<le> v" "v \<le> Fin 1"
  with Fin have "0 \<le> 1 - c" "1 - c \<le> 1" by simp_all
  then have "round64 0 \<le> round64 (1 - c)" "round64 (1 - c) \<le> round64 1"
    by (simp_all only: round64_mono)
  then show ?thesis using Fin by simp
qed (simp_all add: scalar_ops)

lemma one_minus_le: "s \<le> Fin 1 \<Longrightarrow> Fin 0 \<le> Fin 1 - s"
proof (cases s)
  case (Fin c)
  assume "s \<le> Fin 1"
  with Fin have "0 \<le> 1 - c" by simp
  then show ?thesis using Fin by (simp add: round64_nonneg)
qed (simp_all add: scalar_ops)

lemma std_min_bounds:
  "Fin 0 \<le> a \<Longrightarrow> a \<le> Fin 1 \<Longrightarrow> Fin 0 \<le> b \<Longrightarrow>
     Fin 0 \<le> std_min a b \<and> std_min a b \<le> b \<and> std_min a b \<le> Fin 1"
  by (cases a; cases b) (auto simp: scalar_ops)

lemma clip_unit:
  "\<not> isnan t \<Longrightarrow>
     Fin 0 \<le> (if (if t < Fin 0 then Fin 0 else t) > Fin 1 then Fin 1
               else (if t < Fin 0 then Fin 0 else t)) \<and>
     (if (if t < Fin 0 then Fin 0 else t) > Fin 1 then Fin 1
      else (if t < Fin 0 then Fin 0 else t)) \<le> Fin 1"
  by (cases t) (auto simp: scalar_ops)

text \<open>
  C4, as stated, fails: for intact material around the node (\<open>g_phi = 1\<close> in the four
  cells) and \<open>scaleModulusMax = 1/2\<close> the factor is \<open>min(1 - 1, 1 - 1/2) = 0\<close>, which
  is below \<open>1 - scaleModulusMax = 1/2\<close>.
\<close>

theorem ScaledModulus_counterexample:
  "ScaledModulus_node D2 (sample_model (Fin 1)) (Fin (1/2)) (uniform (Fin 1)) (0, 0, 0) = Fin 0
   \<and> \<not> (Fin 1 - Fin (1/2) \<le> Fin 0)"
  by (simp add: ScaledModulus_node_def ScaledModulus_temp_def sample_model_def uniform_def Let_def)

text \<open>
  C4, amended. For every damage field whose sum of \<open>g_phi\<close> at the node is not NaN and
  every \<open>scaleModulusMax \<le> 1\<close>, the factor \<open>min(1 - avg, 1 - scaleModulusMax)\<close> lies in
  \<open>[0, 1 - scaleModulusMax]\<close>, and is at most 1: \<open>1 - scaleModulusMax\<close> is its upper
  end.
\<close>

theorem ScaledModulus_factor_range:
  assumes "\<not> isnan (ScaledModulus_temp d b cnew ijk)" and "scaleModulusMax \<le> Fin 1"
  shows "Fin 0 \<le> ScaledModulus_node d b scaleModulusMax cnew ijk \<and>
         ScaledModulus_node d b scaleModulusMax cnew ijk \<le> Fin 1 - scaleModulusMax \<and>
         ScaledModulus_node d b scaleModulusMax cnew ijk \<le> Fin 1"
proof -
  let ?t = "ScaledModulus_temp d b cnew ijk"
  let ?c = "if (if ?t < Fin 0 then Fin 0 else ?t) > Fin 1 then Fin 1
            else (if ?t < Fin 0 then Fin 0 else ?t)"
  from clip_unit [OF assms(1)] have c: "Fin 0 \<le> ?c" "?c \<le> Fin 1" by blast+
  from one_minus_unit [OF c] have a: "Fin 0 \<le> Fin 1 - ?c" "Fin 1 - ?c \<le> Fin 1" by blast+
  from std_min_bounds [OF a one_minus_le [OF assms(2)]]
  show ?thesis unfolding ScaledModulus_node_def Let_def by blast
qed

theorem ScaledModulus_factor_range_witness:
  "Fin 0 \<le> ScaledModulus_node D2 (sample_model (Fin 1)) (Fin (1/2)) (uniform (Fin (1/2))) (0, 0, 0) \<and>
   ScaledModulus_node D2 (sample_model (Fin 1)) (Fin (1/2)) (uniform (Fin (1/2))) (0, 0, 0)
     \<le> Fin 1 - Fin (1/2)"
proof -
  have t: "ScaledModulus_temp D2 (sample_model (Fin 1)) (uniform (Fin (1/2))) (0, 0, 0) = Fin (1/4)"
    by (simp add: ScaledModulus_temp_def sample_model_def uniform_def Let_def)
  have "\<not> isnan (ScaledModulus_temp D2 (sample_model (Fin 1)) (uniform (Fin (1/2))) (0, 0, 0))"
    by (simp add: t)
  moreover have "Fin (1/2) \<le> Fin 1" by simp
  ultimately show ?thesis using ScaledModulus_factor_range by blast
qed

section \<open>The constructor\<close>

lemma query_simps [simp]: "query None x = x" "query (Some y) x = y"
  by (simp_all add: query_def)

lemma tenth: "\<exists>d. round64 (1/10) = Fin d \<and> 0 \<le> d"
proof -
  have "round64 0 \<le> round64 (1/10)" "round64 (1/10) \<le> round64 1"
    by (rule round64_mono, simp)+
  then show ?thesis by (cases "round64 (1/10)") (simp_all add: less_eq_scalar_def scalar_le_def)
qed

text \<open>
  C9, as stated, fails: a \<open>disp_step\<close> that is NaN passes both comparisons, so that the
  constructor keeps it and warns of nothing, and \<open>test_rate \<ge> 0\<close> does not hold
  afterwards; a \<open>max_disp\<close> that is NaN is kept in the same way, and
  \<open>test_max \<ge> test_rate\<close> does not hold.
\<close>

theorem BrittleFracture_ramp_counterexample:
  "test_rate (fst (BrittleFracture_ramp sample_controller (Some NaN) None None None)) = NaN \<and>
   snd (BrittleFracture_ramp sample_controller (Some NaN) None None None) = [] \<and>
   \<not> (Fin 0 \<le> test_rate (fst (BrittleFracture_ramp sample_controller (Some NaN) None None None))) \<and>
   test_max (fst (BrittleFracture_ramp sample_controller None None (Some NaN) None)) = NaN \<and>
   snd (BrittleFracture_ramp sample_controller None None (Some NaN) None) = [] \<and>
   \<not> (test_rate (fst (BrittleFracture_ramp sample_controller None None (Some NaN) None))
        \<le> test_max (fst (BrittleFracture_ramp sample_controller None None (Some NaN) None)))"
  by (simp add: BrittleFracture_ramp_def sample_controller_def Let_def scalar_ops)

text \<open>
  C9, amended. For a rate and a maximum that are not NaN, after the constructor
  \<open>test_rate \<ge> 0\<close> and \<open>test_max \<ge> test_rate\<close> hold: a negative rate becomes
  \<^verbatim>\<open>0.1\<close>, with a warning whose text says 1.0, and a maximum that is negative or below
  the rate (as already reset) becomes that rate, with a warning. The constructor goes on
  in both cases: its result is a controller.
\<close>

theorem BrittleFracture_ramp_sanitized:
  assumes "\<not> isnan (query disp_step (test_rate hdr))" and "\<not> isnan (query max_disp (test_max hdr))"
  shows "let r = query disp_step (test_rate hdr); m = query max_disp (test_max hdr);
             s = fst (BrittleFracture_ramp hdr disp_step disp_init max_disp stress_test);
             w = snd (BrittleFracture_ramp hdr disp_step disp_init max_disp stress_test)
         in Fin 0 \<le> test_rate s \<and> test_rate s \<le> test_max s \<and>
            test_rate s = (if r < Fin 0 then round64 (1/10) else r) \<and>
            test_max s = (if m < Fin 0 \<or> m < test_rate s then test_rate s else m) \<and>
            w = (if r < Fin 0 then [''Rate can't be less than zero. Resetting to 1.0''] else []) @
                (if m < Fin 0 \<or> m < test_rate s
                 then [''Max can't be less than load step. Resetting to load step''] else [])"
proof -
  from tenth obtain d where d: "round64 (1/10) = Fin d" "0 \<le> d" by blast
  show ?thesis
    using assms unfolding BrittleFracture_ramp_def Let_def d(1)
    by (cases "query disp_step (test_rate hdr)"; cases "query max_disp (test_max hdr)")
      (use d(2) in \<open>auto simp: scalar_ops split: if_splits\<close>)
qed

theorem BrittleFracture_ramp_sanitized_witness:
  "test_rate (fst (BrittleFracture_ramp sample_controller (Some (Fin (- 1))) None
      (Some (Fin (- 2))) None)) = round64 (1/10) \<and>
   test_max (fst (BrittleFracture_ramp sample_controller (Some (Fin (- 1))) None
      (Some (Fin (- 2))) None)) = round64 (1/10) \<and>
   snd (BrittleFracture_ramp sample_controller (Some (Fin (- 1))) None
      (Some (Fin (- 2))) None) =
     [''Rate can't be less than zero. Resetting to 1.0'',
      ''Max can't be less than load step. Resetting to load step'']"
  using BrittleFracture_ramp_sanitized [where hdr = sample_controller
      and disp_step = "Some (Fin (- 1))" and max_disp = "Some (Fin (- 2))"
      and disp_init = None and stress_test = None]
  by (simp add: Let_def)

section \<open>The name of the bottom solver\<close>

text \<open>
  C10. When \<open>elastic.bottom_solver\<close> is neither \<open>cg\<close> nor \<open>bicgstab\<close>,
  \<open>setBottomSolver\<close> is not called: the solver keeps the default of its class. The
  events up to the solve are those of a recognised name, with no abort among them, and
  there are none when no displacement contains a NaN.
\<close>

theorem ElasticityProblem_unknown_bottom_solver:
  assumes "bottom_solver elastic \<noteq> ''cg''" and "bottom_solver elastic \<noteq> ''bicgstab''"
  shows "BottomSolver (fst (ElasticityProblem_solver elastic nans)) = None \<and>
         setBottomSolver_by_name (bottom_solver elastic) solver = solver \<and>
         snd (ElasticityProblem_solver elastic nans) =
           snd (ElasticityProblem_solver (elastic\<lparr>bottom_solver := ''cg''\<rparr>) nans) \<and>
         Abort \<notin> set (snd (ElasticityProblem_solver elastic nans)) \<and>
         ((\<forall>b \<in> set nans. \<not> b) \<longrightarrow> snd (ElasticityProblem_solver elastic nans) = [])"
  using assms
  by (auto simp: ElasticityProblem_solver_def setBottomSolver_by_name_def new_solver_def Let_def
      filter_empty_conv)

theorem ElasticityProblem_unknown_bottom_solver_witness:
  "BottomSolver (fst (ElasticityProblem_solver (sample_options ''gmres'') [False, False])) = None \<and>
   snd (ElasticityProblem_solver (sample_options ''gmres'') [False, False]) = []"
  using ElasticityProblem_unknown_bottom_solver [where elastic = "sample_options ''gmres''"
      and nans = "[False, False]" and solver = new_solver]
  by (auto simp: sample_options_def)

section \<open>The convergence check\<close>

lemma round64_eval:
  assumes "2 powi k \<le> a" "a < 2 powi (k + 1)" "- 1022 \<le> k" "k \<le> 1022"
  shows "round64 a = Fin (of_int (rne (a / 2 powi (k - 52))) * 2 powi (k - 52))"
proof -
  have "(0::real) < 2 powi k" by simp
  with assms(1) have pos: "0 < a" by linarith
  have k: "expo a = k" by (rule expo_eqI [OF assms(1-3)])
  have r: "r64 a = of_int (rne (a / 2 powi (k - 52))) * 2 powi (k - 52)"
    by (rule r64_eval [OF assms(1-3)])
  have "0 \<le> r64 a" using rpos_nonneg [of a] pos by (simp add: r64_pos)
  moreover have "r64 a \<le> 2 powi (k + 1)" using rpos_upper [OF pos] pos by (simp add: r64_pos k)
  moreover have "(2::real) powi (k + 1) < 2 powi 1024"
    by (rule power_int_strict_increasing) (use assms(4) in simp_all)
  ultimately have "\<bar>r64 a\<bar> < huge" by (simp add: huge_def)
  then show ?thesis unfolding r [symmetric] by (auto simp: round64_def)
qed

lemma tenth_value: "round64 (1/10) = Fin d_tenth"
  unfolding d_tenth_def using round64_eval [of "- 4" "1/10"] by (simp add: rne_def Let_def)

lemma five_tenths: "round64 (5 * d_tenth) = Fin (1/2)"
  unfolding d_tenth_def
  using round64_eval [of "- 1" "5 * (3602879701896397 / 36028797018963968)"]
  by (simp add: rne_def Let_def)

lemma six_tenths: "round64 (6 * d_tenth) = Fin d_six_tenths_up"
  unfolding d_tenth_def d_six_tenths_up_def
  using round64_eval [of "- 1" "6 * (3602879701896397 / 36028797018963968)"]
  by (simp add: rne_def Let_def)

lemma six_tenths_fix: "round64 d_six_tenths_up = Fin d_six_tenths_up"
  unfolding d_six_tenths_up_def
  using round64_eval [of "- 1" "5404319552844596 / 9007199254740992"]
  by (simp add: rne_def Let_def)

lemma half_plus_tenth: "round64 (1/2 + d_tenth) = Fin d_six_tenths_down"
  unfolding d_tenth_def d_six_tenths_down_def
  using round64_eval [of "- 1" "1/2 + 3602879701896397 / 36028797018963968"]
  by (simp add: rne_def Let_def)

lemma six_tenths_differ: "d_six_tenths_up \<noteq> d_six_tenths_down"
  by (simp add: d_six_tenths_up_def d_six_tenths_down_def)

lemma sint_succ:
  fixes w :: "32 word"
  assumes "sint w < 2147483647"
  shows "sint (w + 1) = sint w + 1"
proof -
  have "- (2 ^ 31) \<le> sint w" using sint_ge [of w] by simp
  then have "signed_take_bit 31 (sint w + 1) = sint w + 1"
    using assms by (intro signed_take_bit_int_eq_self) simp_all
  then show ?thesis by (simp add: sint_word_add)
qed

lemma norm_div_zero: "isnan (e / Fin 0) \<or> isinf (e / Fin 0)"
  by (cases e) (simp_all add: scalar_ops)

lemma pos_div_zero: "Fin 0 < e \<Longrightarrow> e / Fin 0 = PInf"
  by (cases e) (simp_all add: scalar_ops)

lemma le_not_gt: "(q::scalar) \<le> t \<Longrightarrow> \<not> t < q"
  by (cases q; cases t) (simp_all add: scalar_ops)

lemma nan_not_gt: "isnan q \<Longrightarrow> \<not> t < q"
  by (cases q; cases t) (simp_all add: scalar_ops)

lemma TimeStepComplete_advance:
  assumes "\<not> crackStressTest s" and "\<not> tol_crack s < e / n"
  shows "TimeStepComplete time e n s =
           (let s1 = s\<lparr>crack_err_norm := Fin 0, c_new_norm := Fin 0,
                        plot_files := plot_files s @ [test_step s],
                        newCrackProblem := True, test_step := test_step s + 1\<rparr>
            in if test_max s \<le> bc_top_1 s
               then s1\<lparr>stop_time := Some (time - round64 (1/100))\<rparr> else s1)"
  using assms
  by (simp add: TimeStepComplete_def IntegrateVariables_def WritePlotFile_def SetStopTime_def
      Let_def)

lemma TimeStepComplete_repeat:
  assumes "\<not> crackStressTest s" and "tol_crack s < e / n"
  shows "TimeStepComplete time e n s = s\<lparr>crack_err_norm := e, c_new_norm := n\<rparr>"
  using assms
  by (simp add: TimeStepComplete_def IntegrateVariables_def Let_def)

lemma TimeStepBegin_new:
  assumes "\<not> crackStressTest s" and "newCrackProblem s"
  shows "TimeStepBegin s =
           s\<lparr>bc_top_1 := test_init s + Fin (of_int (sint (test_step s))) * test_rate s,
             newCrackProblem := False,
             elastic_solves := elastic_solves s
                @ [test_init s + Fin (of_int (sint (test_step s))) * test_rate s]\<rparr>"
  using assms by (simp add: TimeStepBegin_def ElasticityProblem_call_def Let_def)

lemma TimeStepBegin_same:
  assumes "\<not> crackStressTest s" and "\<not> newCrackProblem s"
  shows "TimeStepBegin s = s\<lparr>elastic_solves := elastic_solves s @ [bc_top_1 s]\<rparr>"
  using assms by (simp add: TimeStepBegin_def ElasticityProblem_call_def Let_def)

text \<open>
  C5, as stated, fails: in the sixth load step of a ramp from 0 by steps of
  \<^verbatim>\<open>0.1\<close> the ramp in force is \<^verbatim>\<open>0 + 5 * 0.1 = 0.5\<close>; the step converges, and
  the next ramp is \<^verbatim>\<open>0 + 6 * 0.1\<close>, the double above 6/10, whereas the current ramp
  plus \<^verbatim>\<open>0.1\<close> is the double below 6/10.
\<close>

theorem TimeStepComplete_counterexample_rounding:
  "\<not> crackStressTest tenth_controller \<and>
   bc_top_1 tenth_controller =
     test_init tenth_controller + Fin (of_int (sint (test_step tenth_controller)))
       * test_rate tenth_controller \<and>
   Fin 0 / Fin 1 \<le> tol_crack tenth_controller \<and>
   bc_top_1 (TimeStepBegin (TimeStepComplete (Fin 1) (Fin 0) (Fin 1) tenth_controller))
     = Fin d_six_tenths_up \<and>
   bc_top_1 tenth_controller + test_rate tenth_controller = Fin d_six_tenths_down \<and>
   bc_top_1 (TimeStepBegin (TimeStepComplete (Fin 1) (Fin 0) (Fin 1) tenth_controller))
     \<noteq> bc_top_1 tenth_controller + test_rate tenth_controller"
proof -
  let ?s = tenth_controller
  have f: "\<not> crackStressTest ?s" "test_init ?s = Fin 0" "test_rate ?s = Fin d_tenth"
    "test_step ?s = 5" "bc_top_1 ?s = Fin (1/2)" "tol_crack ?s = Fin (1/1048576)"
    by (simp_all add: tenth_controller_def sample_controller_def tenth_value)
  have q: "Fin 0 / Fin 1 \<le> tol_crack ?s" by (simp add: f scalar_ops)
  let ?s' = "TimeStepComplete (Fin 1) (Fin 0) (Fin 1) ?s"
  note adv = TimeStepComplete_advance [OF f(1) le_not_gt [OF q], of "Fin 1"]
  have m: "\<not> crackStressTest ?s'" "newCrackProblem ?s'" "test_step ?s' = 6"
    "test_init ?s' = Fin 0" "test_rate ?s' = Fin d_tenth"
    using f by (simp_all add: adv Let_def)
  have cur: "bc_top_1 ?s = test_init ?s + Fin (of_int (sint (test_step ?s))) * test_rate ?s"
    by (simp add: f five_tenths)
  have nxt: "bc_top_1 (TimeStepBegin ?s') = Fin d_six_tenths_up"
    by (simp add: TimeStepBegin_new [OF m(1,2)] m six_tenths six_tenths_fix)
  have sum: "bc_top_1 ?s + test_rate ?s = Fin d_six_tenths_down"
    by (simp add: f half_plus_tenth)
  have ne: "bc_top_1 (TimeStepBegin ?s') \<noteq> bc_top_1 ?s + test_rate ?s"
    unfolding nxt sum using six_tenths_differ by simp
  from f(1) cur q nxt sum ne show ?thesis by blast
qed

text \<open>
  C5, amended. In crack mode: when \<open>crack_err_norm / c_new_norm \<le> tol_crack\<close>, the
  quotient does not exceed \<open>tol_crack\<close>; whenever it does not, \<open>TimeStepComplete\<close> resets
  both norms to zero and increments the step counter, an \<open>int\<close> of 32 bits whose value
  is one more unless it was the largest, and the next \<open>TimeStepBegin\<close> applies and solves
  with the ramp \<open>test_init + (test_step + 1) * test_rate\<close> as the doubles give it; when
  the quotient exceeds \<open>tol_crack\<close>, only the norms change, to the sums of the step, and
  in a load step in progress the next \<open>TimeStepBegin\<close> solves with the same ramp at the
  same step.
\<close>

theorem TimeStepComplete_convergence:
  assumes mode: "\<not> crackStressTest s"
  shows "(e / n \<le> tol_crack s \<longrightarrow> \<not> e / n > tol_crack s) \<and>
         (\<not> e / n > tol_crack s \<longrightarrow>
           crack_err_norm (TimeStepComplete time e n s) = Fin 0 \<and>
           c_new_norm (TimeStepComplete time e n s) = Fin 0 \<and>
           test_step (TimeStepComplete time e n s) = test_step s + 1 \<and>
           (sint (test_step s) < 2147483647 \<longrightarrow>
              sint (test_step (TimeStepComplete time e n s)) = sint (test_step s) + 1) \<and>
           bc_top_1 (TimeStepBegin (TimeStepComplete time e n s)) =
             test_init s + Fin (of_int (sint (test_step s + 1))) * test_rate s \<and>
           elastic_solves (TimeStepBegin (TimeStepComplete time e n s)) =
             elastic_solves s @ [test_init s + Fin (of_int (sint (test_step s + 1))) * test_rate s]) \<and>
         (e / n > tol_crack s \<longrightarrow>
           TimeStepComplete time e n s = s\<lparr>crack_err_norm := e, c_new_norm := n\<rparr> \<and>
           (\<not> newCrackProblem s \<longrightarrow>
              bc_top_1 (TimeStepBegin (TimeStepComplete time e n s)) = bc_top_1 s \<and>
              test_step (TimeStepBegin (TimeStepComplete time e n s)) = test_step s \<and>
              elastic_solves (TimeStepBegin (TimeStepComplete time e n s)) =
                elastic_solves s @ [bc_top_1 s]))"
proof (intro conjI impI)
  assume "e / n \<le> tol_crack s"
  then show "\<not> e / n > tol_crack s" by (rule le_not_gt)
next
  assume c: "\<not> e / n > tol_crack s"
  let ?s' = "TimeStepComplete time e n s"
  note adv = TimeStepComplete_advance [OF mode c, of time]
  show "crack_err_norm ?s' = Fin 0" "c_new_norm ?s' = Fin 0" "test_step ?s' = test_step s + 1"
    by (simp_all add: adv Let_def)
  have m: "\<not> crackStressTest ?s'" and nw: "newCrackProblem ?s'"
    using mode by (simp_all add: adv Let_def)
  have t: "test_step ?s' = test_step s + 1" "test_init ?s' = test_init s"
    "test_rate ?s' = test_rate s"
    by (simp_all add: adv Let_def)
  show "bc_top_1 (TimeStepBegin ?s') =
          test_init s + Fin (of_int (sint (test_step s + 1))) * test_rate s"
    by (simp add: TimeStepBegin_new [OF m nw] t)
  show "elastic_solves (TimeStepBegin ?s') =
          elastic_solves s @ [test_init s + Fin (of_int (sint (test_step s + 1))) * test_rate s]"
    by (simp add: TimeStepBegin_new [OF m nw] t) (simp add: adv Let_def)
  show "sint (test_step ?s') = sint (test_step s) + 1" if "sint (test_step s) < 2147483647"
    using sint_succ [OF that] by (simp add: adv Let_def)
next
  assume c: "e / n > tol_crack s"
  let ?s' = "TimeStepComplete time e n s"
  note rep = TimeStepComplete_repeat [OF mode c, of time]
  show "?s' = s\<lparr>crack_err_norm := e, c_new_norm := n\<rparr>" by (rule rep)
  show "bc_top_1 (TimeStepBegin ?s') = bc_top_1 s" "test_step (TimeStepBegin ?s') = test_step s"
    "elastic_solves (TimeStepBegin ?s') = elastic_solves s @ [bc_top_1 s]"
    if run: "\<not> newCrackProblem s"
  proof -
    have m: "\<not> crackStressTest ?s'" and nw: "\<not> newCrackProblem ?s'"
      using mode run by (simp_all add: rep)
    show "bc_top_1 (TimeStepBegin ?s') = bc_top_1 s" "test_step (TimeStepBegin ?s') = test_step s"
      "elastic_solves (TimeStepBegin ?s') = elastic_solves s @ [bc_top_1 s]"
      by (simp_all add: TimeStepBegin_same [OF m nw]) (simp_all add: rep)
  qed
qed

theorem TimeStepComplete_convergence_witness:
  "test_step (TimeStepComplete (Fin 1) (Fin 0) (Fin 1)
      (sample_controller\<lparr>newCrackProblem := False\<rparr>)) = 1 \<and>
   crack_err_norm (TimeStepComplete (Fin 1) (Fin 0) (Fin 1)
      (sample_controller\<lparr>newCrackProblem := False\<rparr>)) = Fin 0 \<and>
   bc_top_1 (TimeStepBegin (TimeStepComplete (Fin 1) (Fin 0) (Fin 1)
      (sample_controller\<lparr>newCrackProblem := False\<rparr>))) = Fin (3/8) \<and>
   test_step (TimeStepBegin (TimeStepComplete (Fin 1) (Fin 1) (Fin 1)
      (sample_controller\<lparr>newCrackProblem := False\<rparr>))) = 0 \<and>
   bc_top_1 (TimeStepBegin (TimeStepComplete (Fin 1) (Fin 1) (Fin 1)
      (sample_controller\<lparr>newCrackProblem := False\<rparr>))) = Fin 0"
proof -
  let ?s = "sample_controller\<lparr>newCrackProblem := False\<rparr>"
  have h: "\<not> crackStressTest ?s" by (simp add: sample_controller_def)
  have q: "\<not> Fin 0 / Fin 1 > tol_crack ?s" "Fin 1 / Fin 1 > tol_crack ?s"
    by (simp_all add: sample_controller_def scalar_ops)
  have v: "test_step ?s = 0" "bc_top_1 ?s = Fin 0" "test_init ?s = Fin 0"
    "test_rate ?s = Fin (3/8)" "\<not> newCrackProblem ?s"
    by (simp_all add: sample_controller_def)
  from q(1) TimeStepComplete_convergence [OF h, of "Fin 0" "Fin 1" "Fin 1"]
  have "test_step (TimeStepComplete (Fin 1) (Fin 0) (Fin 1) ?s) = test_step ?s + 1 \<and>
    crack_err_norm (TimeStepComplete (Fin 1) (Fin 0) (Fin 1) ?s) = Fin 0 \<and>
    bc_top_1 (TimeStepBegin (TimeStepComplete (Fin 1) (Fin 0) (Fin 1) ?s))
      = test_init ?s + Fin (of_int (sint (test_step ?s + 1))) * test_rate ?s"
    by blast
  then have 1: "test_step (TimeStepComplete (Fin 1) (Fin 0) (Fin 1) ?s) = 1"
    "crack_err_norm (TimeStepComplete (Fin 1) (Fin 0) (Fin 1) ?s) = Fin 0"
    "bc_top_1 (TimeStepBegin (TimeStepComplete (Fin 1) (Fin 0) (Fin 1) ?s)) = Fin (3/8)"
    unfolding v(1,3,4) by simp_all
  from q(2) v(5) TimeStepComplete_convergence [OF h, of "Fin 1" "Fin 1" "Fin 1"]
  have "test_step (TimeStepBegin (TimeStepComplete (Fin 1) (Fin 1) (Fin 1) ?s)) = test_step ?s \<and>
    bc_top_1 (TimeStepBegin (TimeStepComplete (Fin 1) (Fin 1) (Fin 1) ?s)) = bc_top_1 ?s"
    by blast
  then have 2: "test_step (TimeStepBegin (TimeStepComplete (Fin 1) (Fin 1) (Fin 1) ?s)) = 0"
    "bc_top_1 (TimeStepBegin (TimeStepComplete (Fin 1) (Fin 1) (Fin 1) ?s)) = Fin 0"
    unfolding v(1,2) by simp_all
  from 1 2 show ?thesis by blast
qed

lemma Integrate_controller:
  "crackStressTest (Integrate d DX cnew cold box s) = crackStressTest s \<and>
   test_step (Integrate d DX cnew cold box s) = test_step s \<and>
   tol_crack (Integrate d DX cnew cold box s) = tol_crack s"
  by (induction box arbitrary: s) simp_all

lemma Integrate_zero:
  assumes "\<forall>m \<in> set box. cnew m = Fin 0" and "cell_volume d DX = Fin v"
    and "c_new_norm s = Fin 0"
  shows "c_new_norm (Integrate d DX cnew cold box s) = Fin 0"
  using assms by (induction box arbitrary: s) simp_all

lemma Integrate_zero_err:
  assumes "\<forall>m \<in> set box. cnew m = Fin 0 \<and> cold m = Fin 0" and "cell_volume d DX = Fin v"
    and "crack_err_norm s = Fin 0"
  shows "crack_err_norm (Integrate d DX cnew cold box s) = Fin 0"
  using assms by (induction box arbitrary: s) simp_all

text \<open>
  C8, as stated, fails: for a damage field that is zero in every cell after a field that
  was 1, \<open>Integrate\<close> leaves \<open>c_new_norm = 0\<close> and \<open>crack_err_norm = 1\<close>; the quotient
  is \<open>+\<infinity>\<close>, which exceeds \<open>tol_crack\<close>, and the load step is repeated: only the
  norms change.
\<close>

theorem TimeStepComplete_counterexample_repeat:
  "c_new_norm (Integrate D2 unit_DX (uniform (Fin 0)) (uniform (Fin 1)) [(0, 0, 0)]
      (sample_controller\<lparr>newCrackProblem := False\<rparr>)) = Fin 0 \<and>
   crack_err_norm (Integrate D2 unit_DX (uniform (Fin 0)) (uniform (Fin 1)) [(0, 0, 0)]
      (sample_controller\<lparr>newCrackProblem := False\<rparr>)) = Fin 1 \<and>
   Fin 1 / Fin 0 = PInf \<and>
   TimeStepComplete (Fin 1) (Fin 1) (Fin 0) (sample_controller\<lparr>newCrackProblem := False\<rparr>)
     = sample_controller\<lparr>newCrackProblem := False, crack_err_norm := Fin 1, c_new_norm := Fin 0\<rparr> \<and>
   test_step (TimeStepComplete (Fin 1) (Fin 1) (Fin 0)
      (sample_controller\<lparr>newCrackProblem := False\<rparr>)) = test_step sample_controller"
proof -
  let ?s = "sample_controller\<lparr>newCrackProblem := False\<rparr>"
  have 1: "c_new_norm (Integrate D2 unit_DX (uniform (Fin 0)) (uniform (Fin 1)) [(0, 0, 0)] ?s)
             = Fin 0"
    "crack_err_norm (Integrate D2 unit_DX (uniform (Fin 0)) (uniform (Fin 1)) [(0, 0, 0)] ?s)
             = Fin 1"
    by (simp_all add: uniform_def unit_DX_def cell_volume_def sample_controller_def)
  have q: "Fin 1 / Fin 0 = PInf" by (simp add: scalar_ops)
  have m: "\<not> crackStressTest ?s" "tol_crack ?s < Fin 1 / Fin 0"
    by (simp_all add: sample_controller_def scalar_ops)
  have 2: "TimeStepComplete (Fin 1) (Fin 1) (Fin 0) ?s
             = sample_controller\<lparr>newCrackProblem := False, crack_err_norm := Fin 1,
                 c_new_norm := Fin 0\<rparr>"
    by (simp add: TimeStepComplete_repeat [OF m])
  have 3: "test_step (TimeStepComplete (Fin 1) (Fin 1) (Fin 0) ?s) = test_step sample_controller"
    by (simp add: 2)
  from 1 q 2 3 show ?thesis by blast
qed

text \<open>
  C8, amended. In crack mode, with \<open>c_new_norm = 0\<close> the quotient is NaN or infinite,
  whatever \<open>crack_err_norm\<close> is. When it is NaN, the comparison with \<open>tol_crack\<close> is
  false; whenever the comparison is false the load step advances: the step counter is
  incremented, the next step starts a new crack problem, and both norms are reset. When
  \<open>crack_err_norm > 0\<close> and \<open>tol_crack < +\<infinity>\<close>, the quotient is \<open>+\<infinity>\<close>, the
  comparison is true, and the step is repeated with only the norms changed.
  \<open>Integrate\<close> over a damage field that is zero in every cell, with a finite cell
  volume, leaves \<open>c_new_norm\<close> at zero; when the previous field is zero too, both sums
  are zero, the quotient is \<open>0/0\<close> and the step advances. No branch of
  \<open>TimeStepComplete\<close> raises an error.
\<close>

theorem TimeStepComplete_zero_norm:
  assumes mode: "\<not> crackStressTest s"
  shows "(isnan (e / Fin 0) \<or> isinf (e / Fin 0)) \<and>
         (isnan (e / Fin 0) \<longrightarrow> \<not> (e / Fin 0 > tol_crack s)) \<and>
         (\<not> (e / Fin 0 > tol_crack s) \<longrightarrow>
            test_step (TimeStepComplete time e (Fin 0) s) = test_step s + 1 \<and>
            newCrackProblem (TimeStepComplete time e (Fin 0) s) \<and>
            crack_err_norm (TimeStepComplete time e (Fin 0) s) = Fin 0 \<and>
            c_new_norm (TimeStepComplete time e (Fin 0) s) = Fin 0) \<and>
         (Fin 0 < e \<and> tol_crack s < PInf \<longrightarrow> e / Fin 0 = PInf \<and> e / Fin 0 > tol_crack s) \<and>
         (e / Fin 0 > tol_crack s \<longrightarrow>
            TimeStepComplete time e (Fin 0) s = s\<lparr>crack_err_norm := e, c_new_norm := Fin 0\<rparr>) \<and>
         ((\<forall>m \<in> set box. cnew m = Fin 0) \<and> cell_volume d DX = Fin v \<and> c_new_norm s = Fin 0 \<longrightarrow>
            c_new_norm (Integrate d DX cnew cold box s) = Fin 0) \<and>
         ((\<forall>m \<in> set box. cnew m = Fin 0 \<and> cold m = Fin 0) \<and> cell_volume d DX = Fin v \<and>
            crack_err_norm s = Fin 0 \<and> c_new_norm s = Fin 0 \<longrightarrow>
            isnan (crack_err_norm (Integrate d DX cnew cold box s)
                     / c_new_norm (Integrate d DX cnew cold box s)) \<and>
            test_step (TimeStepComplete time
                (crack_err_norm (Integrate d DX cnew cold box s))
                (c_new_norm (Integrate d DX cnew cold box s))
                (Integrate d DX cnew cold box s)) = test_step s + 1)"
proof (intro conjI impI)
  show "isnan (e / Fin 0) \<or> isinf (e / Fin 0)" by (rule norm_div_zero)
next
  assume "isnan (e / Fin 0)"
  then show "\<not> (e / Fin 0 > tol_crack s)" by (rule nan_not_gt)
next
  assume g: "\<not> (e / Fin 0 > tol_crack s)"
  note adv = TimeStepComplete_advance [OF mode g, of time]
  show "test_step (TimeStepComplete time e (Fin 0) s) = test_step s + 1"
    "newCrackProblem (TimeStepComplete time e (Fin 0) s)"
    "crack_err_norm (TimeStepComplete time e (Fin 0) s) = Fin 0"
    "c_new_norm (TimeStepComplete time e (Fin 0) s) = Fin 0"
    by (simp_all add: adv Let_def)
next
  assume a: "Fin 0 < e \<and> tol_crack s < PInf"
  then show q: "e / Fin 0 = PInf" using pos_div_zero by blast
  from a show "e / Fin 0 > tol_crack s" unfolding q by blast
next
  assume "e / Fin 0 > tol_crack s"
  then show "TimeStepComplete time e (Fin 0) s = s\<lparr>crack_err_norm := e, c_new_norm := Fin 0\<rparr>"
    by (rule TimeStepComplete_repeat [OF mode])
next
  assume "(\<forall>m \<in> set box. cnew m = Fin 0) \<and> cell_volume d DX = Fin v \<and> c_new_norm s = Fin 0"
  then show "c_new_norm (Integrate d DX cnew cold box s) = Fin 0"
    using Integrate_zero by blast
next
  assume a: "(\<forall>m \<in> set box. cnew m = Fin 0 \<and> cold m = Fin 0) \<and> cell_volume d DX = Fin v \<and>
            crack_err_norm s = Fin 0 \<and> c_new_norm s = Fin 0"
  let ?s1 = "Integrate d DX cnew cold box s"
  from a have n0: "c_new_norm ?s1 = Fin 0" using Integrate_zero [of box cnew d DX v s cold] by blast
  from a have e0: "crack_err_norm ?s1 = Fin 0" using Integrate_zero_err by blast
  show q: "isnan (crack_err_norm ?s1 / c_new_norm ?s1)"
    by (simp add: n0 e0 scalar_ops)
  have m1: "\<not> crackStressTest ?s1" using mode Integrate_controller by simp
  have g: "\<not> (crack_err_norm ?s1 / c_new_norm ?s1 > tol_crack ?s1)"
    using q by (rule nan_not_gt)
  show "test_step (TimeStepComplete time (crack_err_norm ?s1) (c_new_norm ?s1) ?s1)
          = test_step s + 1"
    using TimeStepComplete_advance [OF m1 g, of time] Integrate_controller [of d DX cnew cold box s]
    by (simp add: Let_def)
qed

theorem TimeStepComplete_zero_norm_witness:
  "isnan (Fin 0 / Fin 0) \<and>
   test_step (TimeStepComplete (Fin 1) (Fin 0) (Fin 0)
      (sample_controller\<lparr>newCrackProblem := False\<rparr>)) = 1 \<and>
   TimeStepComplete (Fin 1) (Fin 1) (Fin 0) (sample_controller\<lparr>newCrackProblem := False\<rparr>)
     = sample_controller\<lparr>newCrackProblem := False, crack_err_norm := Fin 1, c_new_norm := Fin 0\<rparr> \<and>
   c_new_norm (Integrate D2 unit_DX (uniform (Fin 0)) (uniform (Fin 0)) [(0, 0, 0), (1, 0, 0)]
      (sample_controller\<lparr>newCrackProblem := False\<rparr>)) = Fin 0 \<and>
   test_step (TimeStepComplete (Fin 1)
      (crack_err_norm (Integrate D2 unit_DX (uniform (Fin 0)) (uniform (Fin 0))
         [(0, 0, 0), (1, 0, 0)] (sample_controller\<lparr>newCrackProblem := False\<rparr>)))
      (c_new_norm (Integrate D2 unit_DX (uniform (Fin 0)) (uniform (Fin 0))
         [(0, 0, 0), (1, 0, 0)] (sample_controller\<lparr>newCrackProblem := False\<rparr>)))
      (Integrate D2 unit_DX (uniform (Fin 0)) (uniform (Fin 0))
         [(0, 0, 0), (1, 0, 0)] (sample_controller\<lparr>newCrackProblem := False\<rparr>))) = 1"
proof -
  let ?s = "sample_controller\<lparr>newCrackProblem := False\<rparr>"
  have n: "isnan (Fin 0 / Fin 0)" by (simp add: scalar_ops)
  have p: "Fin 0 < Fin 1 \<and> tol_crack ?s < PInf"
    by (simp add: sample_controller_def scalar_ops)
  have v: "cell_volume D2 unit_DX = Fin 1" by (simp add: cell_volume_def unit_DX_def)
  have z: "\<forall>m \<in> set [(0, 0, 0), (1, 0, 0)]. uniform (Fin 0) m = Fin 0 \<and> uniform (Fin 0) m = Fin 0"
    by (simp add: uniform_def)
  have c: "\<not> crackStressTest ?s" "crack_err_norm ?s = Fin 0" "c_new_norm ?s = Fin 0"
    "test_step ?s = 0"
    by (simp_all add: sample_controller_def)
  note t0 = TimeStepComplete_zero_norm [OF c(1), where e = "Fin 0" and time = "Fin 1"
      and box = "[(0, 0, 0), (1, 0, 0)]" and cnew = "uniform (Fin 0)" and cold = "uniform (Fin 0)"
      and d = D2 and DX = unit_DX and v = 1]
  note t1 = TimeStepComplete_zero_norm [OF c(1), where e = "Fin 1" and time = "Fin 1"
      and box = "[]" and cnew = "uniform (Fin 0)" and cold = "uniform (Fin 0)"
      and d = D2 and DX = unit_DX and v = 1]
  from t0 n v z c have
    a: "test_step (TimeStepComplete (Fin 1) (Fin 0) (Fin 0) ?s) = test_step ?s + 1"
    by blast
  from t1 p have
    b: "TimeStepComplete (Fin 1) (Fin 1) (Fin 0) ?s = ?s\<lparr>crack_err_norm := Fin 1, c_new_norm := Fin 0\<rparr>"
    by blast
  from t0 v z c have
    d: "c_new_norm (Integrate D2 unit_DX (uniform (Fin 0)) (uniform (Fin 0))
          [(0, 0, 0), (1, 0, 0)] ?s) = Fin 0"
    "test_step (TimeStepComplete (Fin 1)
      (crack_err_norm (Integrate D2 unit_DX (uniform (Fin 0)) (uniform (Fin 0))
         [(0, 0, 0), (1, 0, 0)] ?s))
      (c_new_norm (Integrate D2 unit_DX (uniform (Fin 0)) (uniform (Fin 0))
         [(0, 0, 0), (1, 0, 0)] ?s))
      (Integrate D2 unit_DX (uniform (Fin 0)) (uniform (Fin 0))
         [(0, 0, 0), (1, 0, 0)] ?s)) = test_step ?s + 1"
    by blast+
  from n a b d show ?thesis unfolding c(4) by simp
qed

section \<open>The ramp over a run\<close>

lemma scalar_le_trans: "(x::scalar) \<le> y \<Longrightarrow> y \<le> z \<Longrightarrow> x \<le> z"
  by (cases x; cases y; cases z) (simp_all add: less_eq_scalar_def scalar_le_def)

lemma scalar_le_refl: "\<not> isnan x \<Longrightarrow> (x::scalar) \<le> x"
  by (cases x) (simp_all add: less_eq_scalar_def scalar_le_def isnan_def)

lemma le_PInf: "\<not> isnan x \<Longrightarrow> x \<le> PInf"
  by (cases x) (simp_all add: scalar_ops)

lemma NInf_le: "\<not> isnan x \<Longrightarrow> NInf \<le> x"
  by (cases x) (simp_all add: scalar_ops)

lemma Fin_add_inf [simp]: "Fin a + PInf = PInf" "Fin a + NInf = NInf"
  by (simp_all add: scalar_ops)

lemma Fin_add_mono: "p \<le> q \<Longrightarrow> Fin a + p \<le> Fin a + q"
proof (cases p; cases q)
  fix x y assume "p \<le> q" "p = Fin x" "q = Fin y"
  then show ?thesis using round64_mono [of "a + x" "a + y"] by simp
next
  fix x assume "p = Fin x" "q = PInf"
  then show ?thesis by (simp add: le_PInf)
next
  fix x assume "p = NInf" "q = Fin x"
  then show ?thesis by (simp add: NInf_le)
qed (simp_all add: scalar_ops)

lemma ramp_not_nan: "\<not> isnan (ramp a b k)"
proof -
  have r: "ramp a b k = Fin a + round64 (of_int k * b)" by (simp add: ramp_def)
  show ?thesis
  proof (cases "of_int k * b" rule: round64_cases)
    case 3
    then show ?thesis using r by simp
  qed (simp_all add: r isnan_def)
qed

lemma ramp_refl: "ramp a b k \<le> ramp a b k"
  using ramp_not_nan by (rule scalar_le_refl)

lemma ramp_mono:
  assumes "0 \<le> b" and "k \<le> l"
  shows "ramp a b k \<le> ramp a b l"
proof -
  have "of_int k * b \<le> of_int l * b" using assms by (simp add: mult_right_mono)
  then have "round64 (of_int k * b) \<le> round64 (of_int l * b)" by (rule round64_mono)
  then show ?thesis unfolding ramp_def by (simp add: Fin_add_mono)
qed

lemma ramp_inv_weaken: "ramp_inv a b (Suc n) s \<Longrightarrow> ramp_inv a b n s"
  unfolding ramp_inv_def by (elim conjE, intro conjI) simp_all

lemma ramp_inv_Begin:
  assumes inv: "ramp_inv a b m s" and ns: "stop_time s = None"
  shows "ramp_inv a b m (TimeStepBegin s) \<and> \<not> newCrackProblem (TimeStepBegin s) \<and>
         stop_time (TimeStepBegin s) = None"
proof -
  let ?k = "sint (test_step s)"
  let ?tr = "elastic_solves s"
  from inv have
    cfg: "test_init s = Fin a" "test_rate s = Fin b" "\<not> crackStressTest s"
      "?k + int m < 2147483648"
    and tr: "sorted_wrt (\<le>) ?tr" "\<forall>r \<in> set ?tr. r \<le> ramp a b ?k"
      "\<forall>r \<in> set ?tr. test_max s \<le> r \<longrightarrow> r = last ?tr"
    and ph: "if newCrackProblem s
      then (?tr = [] \<and> stop_time s = None) \<or>
           (?tr \<noteq> [] \<and> bc_top_1 s = last ?tr \<and>
            (stop_time s = None \<longrightarrow> \<not> test_max s \<le> last ?tr) \<and>
            (stop_time s \<noteq> None \<longrightarrow> test_max s \<le> last ?tr))
      else stop_time s = None \<and> ?tr \<noteq> [] \<and> bc_top_1 s = last ?tr \<and>
           last ?tr = ramp a b ?k"
    unfolding ramp_inv_def by blast+
  show ?thesis
  proof (cases "newCrackProblem s")
    case True
    have v: "test_init s + Fin (of_int ?k) * test_rate s = ramp a b ?k"
      by (simp only: cfg ramp_def)
    have eq: "TimeStepBegin s =
        s\<lparr>bc_top_1 := ramp a b ?k, newCrackProblem := False, elastic_solves := ?tr @ [ramp a b ?k]\<rparr>"
      using TimeStepBegin_new [OF cfg(3) True] by (simp only: v)
    have below: "\<forall>r \<in> set ?tr. \<not> test_max s \<le> r"
    proof (cases "?tr = []")
      case True then show ?thesis by simp
    next
      case False
      with ph \<open>newCrackProblem s\<close> ns have "\<not> test_max s \<le> last ?tr" by auto
      with tr(3) show ?thesis by metis
    qed
    have "ramp_inv a b m (TimeStepBegin s)"
      unfolding ramp_inv_def eq
      using cfg tr below ns ramp_refl [of a b ?k]
      by (auto simp: sorted_wrt_append)
    then show ?thesis using ns by (simp add: eq)
  next
    case False
    with ph have e: "?tr \<noteq> []" "bc_top_1 s = last ?tr" "last ?tr = ramp a b ?k" by auto
    have eq: "TimeStepBegin s = s\<lparr>elastic_solves := ?tr @ [ramp a b ?k]\<rparr>"
      using TimeStepBegin_same [OF cfg(3) False] by (simp only: e)
    have l: "\<forall>r \<in> set ?tr. test_max s \<le> r \<longrightarrow> r = ramp a b ?k"
      using tr(3) e(3) by simp
    have "ramp_inv a b m (TimeStepBegin s)"
      unfolding ramp_inv_def eq
      using cfg tr l e ns False ramp_refl [of a b ?k]
      by (auto simp: sorted_wrt_append)
    then show ?thesis using ns False by (simp add: eq)
  qed
qed

lemma ramp_inv_Complete:
  assumes inv: "ramp_inv a b (Suc m) s" and b: "0 \<le> b" and ns: "stop_time s = None"
    and nn: "\<not> newCrackProblem s"
  shows "ramp_inv a b m (TimeStepComplete time e n s)"
proof -
  let ?k = "sint (test_step s)"
  let ?tr = "elastic_solves s"
  from inv nn have
    cfg: "test_init s = Fin a" "test_rate s = Fin b" "\<not> crackStressTest s"
      "?k + int (Suc m) < 2147483648"
    and tr: "sorted_wrt (\<le>) ?tr" "\<forall>r \<in> set ?tr. r \<le> ramp a b ?k"
      "\<forall>r \<in> set ?tr. test_max s \<le> r \<longrightarrow> r = last ?tr"
    and ph: "?tr \<noteq> []" "bc_top_1 s = last ?tr" "last ?tr = ramp a b ?k"
    unfolding ramp_inv_def by auto
  show ?thesis
  proof (cases "e / n > tol_crack s")
    case True
    have eq: "TimeStepComplete time e n s = s\<lparr>crack_err_norm := e, c_new_norm := n\<rparr>"
      using cfg(3) True by (rule TimeStepComplete_repeat)
    show ?thesis
      unfolding ramp_inv_def eq
      using cfg tr ph ns nn by simp
  next
    case False
    have k1: "sint (test_step s + 1) = ?k + 1"
      using cfg(4) by (intro sint_succ) simp
    have up: "\<forall>r \<in> set ?tr. r \<le> ramp a b (?k + 1)"
    proof
      fix r assume "r \<in> set ?tr"
      with tr(2) have "r \<le> ramp a b ?k" by blast
      moreover have "ramp a b ?k \<le> ramp a b (?k + 1)" using b by (rule ramp_mono) simp
      ultimately show "r \<le> ramp a b (?k + 1)" by (rule scalar_le_trans)
    qed
    note adv = TimeStepComplete_advance [OF cfg(3) False, of time]
    show ?thesis
    proof (cases "test_max s \<le> bc_top_1 s")
      case True
      have eq: "TimeStepComplete time e n s =
         s\<lparr>crack_err_norm := Fin 0, c_new_norm := Fin 0,
           plot_files := plot_files s @ [test_step s],
           newCrackProblem := True, test_step := test_step s + 1,
           stop_time := Some (time - round64 (1/100))\<rparr>"
        using adv True by (simp add: Let_def)
      show ?thesis
        unfolding ramp_inv_def eq
        using cfg tr ph up True k1 by simp
    next
      case False
      have eq: "TimeStepComplete time e n s =
         s\<lparr>crack_err_norm := Fin 0, c_new_norm := Fin 0,
           plot_files := plot_files s @ [test_step s],
           newCrackProblem := True, test_step := test_step s + 1\<rparr>"
        using adv False by (simp add: Let_def)
      show ?thesis
        unfolding ramp_inv_def eq
        using cfg tr ph up False k1 ns by simp
    qed
  qed
qed

lemma ramp_inv_Evolve:
  "ramp_inv a b (length steps) s \<Longrightarrow> 0 \<le> b \<Longrightarrow> ramp_inv a b 0 (Evolve s steps)"
proof (induction steps arbitrary: s)
  case Nil
  then show ?case by simp
next
  case (Cons x steps)
  obtain time e n where x: "x = (time, e, n)" by (cases x) auto
  from Cons.prems(1) have i0: "ramp_inv a b (Suc (length steps)) s" by simp
  show ?case
  proof (cases "stop_time s = None")
    case True
    from ramp_inv_Begin [OF i0 True]
    have i1: "ramp_inv a b (Suc (length steps)) (TimeStepBegin s)"
      and n1: "\<not> newCrackProblem (TimeStepBegin s)"
      and s1: "stop_time (TimeStepBegin s) = None"
      by simp_all
    from ramp_inv_Complete [OF i1 Cons.prems(2) s1 n1]
    have "ramp_inv a b (length steps) (TimeStepComplete time e n (TimeStepBegin s))" .
    from Cons.IH [OF this Cons.prems(2)] show ?thesis using True x by simp
  next
    case False
    have "ramp_inv a b 0 s" using i0 unfolding ramp_inv_def
      by (elim conjE, intro conjI) simp_all
    then show ?thesis using False x by simp
  qed
qed

lemma ramp_inv_start:
  assumes "newCrackProblem s" "\<not> crackStressTest s" "stop_time s = None"
    "elastic_solves s = []" "test_init s = Fin a" "test_rate s = Fin b"
    "sint (test_step s) + int n < 2147483648"
  shows "ramp_inv a b n s"
  unfolding ramp_inv_def using assms by simp

lemma TimeStepComplete_stop:
  assumes "\<not> crackStressTest s"
  shows "stop_time (TimeStepComplete time e n s) \<noteq> None \<longleftrightarrow>
           stop_time s \<noteq> None \<or> (\<not> e / n > tol_crack s \<and> bc_top_1 s \<ge> test_max s)"
  using assms
  by (simp add: TimeStepComplete_def IntegrateVariables_def WritePlotFile_def SetStopTime_def
      Let_def)

lemma hooks_config:
  "tol_crack (TimeStepBegin s) = tol_crack s \<and> test_max (TimeStepBegin s) = test_max s \<and>
   tol_crack (TimeStepComplete time e n s) = tol_crack s \<and>
   test_max (TimeStepComplete time e n s) = test_max s"
  by (simp add: TimeStepBegin_def TimeStepComplete_def ElasticityProblem_call_def
      IntegrateVariables_def WritePlotFile_def SetStopTime_def Let_def)

lemma Evolve_config:
  "tol_crack (Evolve s steps) = tol_crack s \<and> test_max (Evolve s steps) = test_max s"
proof (induction steps arbitrary: s)
  case Nil
  then show ?case by simp
next
  case (Cons x steps)
  obtain time e n where x: "x = (time, e, n)" by (cases x) auto
  show ?case using Cons.IH [of "TimeStepComplete time e n (TimeStepBegin s)"] hooks_config
    by (simp add: x)
qed

text \<open>
  C6, as stated, fails: with \<open>disp_init = 0\<close>, \<open>disp_step = 0.375\<close> and \<open>max_disp = 1\<close>,
  which the constructor accepts as they are, four converged steps apply the ramps
  0, 0.375, 0.75 and 1.125, and the last one exceeds \<open>max_disp\<close>.
\<close>

theorem Evolve_counterexample_overshoot:
  "elastic_solves (Evolve (fst (BrittleFracture_ramp sample_controller (Some (Fin (3/8)))
      (Some (Fin 0)) (Some (Fin 1)) None))
      [(Fin 1, Fin 0, Fin 1), (Fin 2, Fin 0, Fin 1), (Fin 3, Fin 0, Fin 1),
       (Fin 4, Fin 0, Fin 1)])
     = [Fin 0, Fin (3/8), Fin (3/4), Fin (9/8)]
   \<and> test_max (fst (BrittleFracture_ramp sample_controller (Some (Fin (3/8)))
      (Some (Fin 0)) (Some (Fin 1)) None)) = Fin 1
   \<and> \<not> (Fin (9/8) \<le> Fin 1)"
  by (simp add: BrittleFracture_ramp_def sample_controller_def TimeStepBegin_def
      TimeStepComplete_def ElasticityProblem_call_def IntegrateVariables_def WritePlotFile_def
      SetStopTime_def Let_def divide_scalar_def scalar_div_def)

text \<open>
  C6, amended. Take a run in crack mode that starts a crack problem, with no stop
  requested and no elasticity solve made, a finite \<open>test_init\<close>, a finite
  \<open>test_rate \<ge> 0\<close>, and a step counter that the steps of the run cannot take past the
  largest \<open>int\<close>. The ramps applied over the run are non-decreasing; only the last ramp
  applied can have reached \<open>test_max\<close>, and it has when the run was stopped; between two
  load steps of a run that has not stopped, no ramp applied has reached \<open>test_max\<close>. At
  any point of a run that has not stopped, the next step requests the stop exactly when
  it converges with the ramp that it applies at or above \<open>test_max\<close>.
\<close>

theorem Evolve_ramp:
  assumes "newCrackProblem s" and "\<not> crackStressTest s" and "stop_time s = None"
    and "elastic_solves s = []"
    and "test_init s = Fin a" and "test_rate s = Fin b" and "0 \<le> b"
    and "sint (test_step s) + int (length steps) < 2147483648"
  shows "sorted_wrt (\<le>) (elastic_solves (Evolve s steps)) \<and>
         (\<forall>r \<in> set (elastic_solves (Evolve s steps)).
            test_max s \<le> r \<longrightarrow> r = last (elastic_solves (Evolve s steps))) \<and>
         (stop_time (Evolve s steps) \<noteq> None \<longrightarrow>
            elastic_solves (Evolve s steps) \<noteq> [] \<and>
            test_max s \<le> last (elastic_solves (Evolve s steps))) \<and>
         (stop_time (Evolve s steps) = None \<longrightarrow>
            (\<forall>r \<in> set (elastic_solves (Evolve s steps)).
               newCrackProblem (Evolve s steps) \<longrightarrow> \<not> test_max s \<le> r) \<and>
            (stop_time (TimeStepComplete time e n (TimeStepBegin (Evolve s steps))) \<noteq> None
               \<longleftrightarrow> \<not> e / n > tol_crack s \<and>
                   test_max s \<le> last (elastic_solves (TimeStepBegin (Evolve s steps)))))"
proof -
  let ?s' = "Evolve s steps"
  let ?tr = "elastic_solves ?s'"
  have c: "tol_crack ?s' = tol_crack s" "test_max ?s' = test_max s"
    using Evolve_config [of s steps] by simp_all
  have inv: "ramp_inv a b 0 ?s'"
    by (rule ramp_inv_Evolve [OF ramp_inv_start [OF assms(1-6,8)] assms(7)])
  then have 1: "sorted_wrt (\<le>) ?tr"
    and 2: "\<forall>r \<in> set ?tr. test_max s \<le> r \<longrightarrow> r = last ?tr"
    and m: "\<not> crackStressTest ?s'"
    and ph: "if newCrackProblem ?s'
      then (?tr = [] \<and> stop_time ?s' = None) \<or>
           (?tr \<noteq> [] \<and> bc_top_1 ?s' = last ?tr \<and>
            (stop_time ?s' = None \<longrightarrow> \<not> test_max s \<le> last ?tr) \<and>
            (stop_time ?s' \<noteq> None \<longrightarrow> test_max s \<le> last ?tr))
      else stop_time ?s' = None \<and> ?tr \<noteq> [] \<and> bc_top_1 ?s' = last ?tr \<and>
           last ?tr = ramp a b (sint (test_step ?s'))"
    unfolding ramp_inv_def c by blast+
  have 3: "stop_time ?s' \<noteq> None \<longrightarrow> ?tr \<noteq> [] \<and> test_max s \<le> last ?tr"
    using ph by (auto split: if_splits)
  have 4: "stop_time ?s' = None \<longrightarrow>
            (\<forall>r \<in> set ?tr. newCrackProblem ?s' \<longrightarrow> \<not> test_max s \<le> r)"
  proof (intro impI ballI)
    fix r assume ns: "stop_time ?s' = None" and r: "r \<in> set ?tr" and np: "newCrackProblem ?s'"
    from r have "?tr \<noteq> []" by auto
    with ph np ns have "\<not> test_max s \<le> last ?tr" by auto
    with 2 r show "\<not> test_max s \<le> r" by metis
  qed
  have 5: "stop_time ?s' = None \<longrightarrow>
            (stop_time (TimeStepComplete time e n (TimeStepBegin ?s')) \<noteq> None
               \<longleftrightarrow> \<not> e / n > tol_crack s \<and>
                   test_max s \<le> last (elastic_solves (TimeStepBegin ?s')))"
  proof
    assume ns: "stop_time ?s' = None"
    have m1: "\<not> crackStressTest (TimeStepBegin ?s')"
      using m by (simp add: TimeStepBegin_def ElasticityProblem_call_def Let_def)
    have s1: "stop_time (TimeStepBegin ?s') = None"
      using ns by (simp add: TimeStepBegin_def ElasticityProblem_call_def Let_def)
    have l: "last (elastic_solves (TimeStepBegin ?s')) = bc_top_1 (TimeStepBegin ?s')"
      by (simp add: TimeStepBegin_def ElasticityProblem_call_def Let_def)
    have c1: "tol_crack (TimeStepBegin ?s') = tol_crack s"
      "test_max (TimeStepBegin ?s') = test_max s"
      using c by (simp_all add: TimeStepBegin_def ElasticityProblem_call_def Let_def)
    show "stop_time (TimeStepComplete time e n (TimeStepBegin ?s')) \<noteq> None
               \<longleftrightarrow> \<not> e / n > tol_crack s \<and>
                   test_max s \<le> last (elastic_solves (TimeStepBegin ?s'))"
      using TimeStepComplete_stop [OF m1, of time e n] s1 by (simp add: l c1)
  qed
  from 1 2 3 4 5 show ?thesis by blast
qed

theorem Evolve_ramp_witness:
  "sorted_wrt (\<le>) (elastic_solves (Evolve sample_controller
      [(Fin 1, Fin 0, Fin 1), (Fin 2, Fin 1, Fin 1), (Fin 3, Fin 0, Fin 1)])) \<and>
   elastic_solves (Evolve sample_controller
      [(Fin 1, Fin 0, Fin 1), (Fin 2, Fin 1, Fin 1), (Fin 3, Fin 0, Fin 1)])
     = [Fin 0, Fin (3/8), Fin (3/8)] \<and>
   stop_time (Evolve sample_controller
      [(Fin 1, Fin 0, Fin 1), (Fin 2, Fin 1, Fin 1), (Fin 3, Fin 0, Fin 1)]) = None"
proof -
  have h: "newCrackProblem sample_controller" "\<not> crackStressTest sample_controller"
    "stop_time sample_controller = None" "elastic_solves sample_controller = []"
    "test_init sample_controller = Fin 0" "test_rate sample_controller = Fin (3/8)"
    "(0::real) \<le> 3/8"
    "sint (test_step sample_controller)
       + int (length [(Fin 1, Fin 0, Fin 1), (Fin 2, Fin 1, Fin 1), (Fin 3, Fin 0, Fin 1)])
       < 2147483648"
    by (simp_all add: sample_controller_def)
  have v: "elastic_solves (Evolve sample_controller
      [(Fin 1, Fin 0, Fin 1), (Fin 2, Fin 1, Fin 1), (Fin 3, Fin 0, Fin 1)])
     = [Fin 0, Fin (3/8), Fin (3/8)]"
    "stop_time (Evolve sample_controller
      [(Fin 1, Fin 0, Fin 1), (Fin 2, Fin 1, Fin 1), (Fin 3, Fin 0, Fin 1)]) = None"
    by (simp_all add: sample_controller_def TimeStepBegin_def
      TimeStepComplete_def ElasticityProblem_call_def IntegrateVariables_def WritePlotFile_def
      SetStopTime_def Let_def divide_scalar_def scalar_div_def)
  from Evolve_ramp [OF h] have
    "sorted_wrt (\<le>) (elastic_solves (Evolve sample_controller
      [(Fin 1, Fin 0, Fin 1), (Fin 2, Fin 1, Fin 1), (Fin 3, Fin 0, Fin 1)]))"
    by blast
  with v show ?thesis by blast
qed

end
